theory Spec2Isabelle
  imports Complex_Main "HOL-Library.Multiset"
begin

section \<open>Data model\<close>

text \<open>
  The overlap-block resolver of \<^verbatim>\<open>Algorithm/OverlapBlock.cpp\<close>, the multi-overlap builder
  of \<^verbatim>\<open>Algorithm/ErrorCorrectProcess.cpp\<close> and the pileup posterior of
  \<^verbatim>\<open>Util/Pileup.cpp\<close>. The C++ integers (\<^verbatim>\<open>int64_t\<close> BWT coordinates, \<^verbatim>\<open>int\<close> lengths) are
  values of type \<open>int\<close>; where a sum or a difference of two \<^verbatim>\<open>int64_t\<close> can leave the machine
  range, in the splits of \<^verbatim>\<open>resolveOverlap\<close>, the wrap-around of the machine is written out.
  The arithmetic on doubles is a parameter of the pileup model.
\<close>

text \<open>A BWT interval \<^verbatim>\<open>[lower, upper]\<close>, both ends inclusive.\<close>

record BWTInterval =
  lower :: int
  upper :: int

text \<open>\<^verbatim>\<open>BWTIntervalPair\<close>: the two-element array \<^verbatim>\<open>interval[2]\<close> as two fields.\<close>

record BWTIntervalPair =
  interval0 :: BWTInterval
  interval1 :: BWTInterval

record AlignFlags =
  isQueryRev :: bool
  isTargetRev :: bool
  isQueryComp :: bool

text \<open>
  \<^verbatim>\<open>OverlapBlock\<close>. The search histories are of a class that is not part of the sources; their
  type is the parameter \<open>'h\<close>.
\<close>

record 'h OverlapBlock =
  ranges :: BWTIntervalPair
  overlapLen :: int
  numDiff :: int
  flags :: AlignFlags
  isEliminated :: bool
  backHistory :: 'h
  forwardHistory :: 'h

text \<open>Every abort, failed assertion and exception of the modelled code is a value.\<close>

datatype error =
  SameLengthDifferentCoords  \<comment> \<open>\<^verbatim>\<open>assert(false)\<close> in \<^verbatim>\<open>resolveOverlap\<close>\<close>
  | SplitInvariantViolated   \<comment> \<open>the three assertions after a split in \<^verbatim>\<open>resolveOverlap\<close>\<close>
  | SubstrOutOfRange         \<comment> \<open>\<^verbatim>\<open>std::out_of_range\<close> thrown by \<^verbatim>\<open>std::string::substr\<close>\<close>
  | EmptyPileup              \<comment> \<open>\<^verbatim>\<open>assert(!m_data.empty())\<close>\<close>
  | IndexOutOfBounds         \<comment> \<open>a read of \<^verbatim>\<open>m_data[1]\<close> past the end of the vector\<close>

subsection \<open>Interval operations\<close>

text \<open>
  Modelled from the spec: \<^verbatim>\<open>BWTInterval::isValid\<close> is declared in a header that is not part of
  the sources. The spec: a range is invalid when \<^verbatim>\<open>lower > upper\<close>.
\<close>

definition isValid :: "BWTInterval \<Rightarrow> bool" where
  "isValid iv = (lower iv \<le> upper iv)"

text \<open>
  Modelled from the spec: \<^verbatim>\<open>BWTInterval::size\<close> is declared in a header that is not part of
  the sources. The spec: \<^verbatim>\<open>size = upper - lower + 1\<close>, or 0 for an empty/invalid range.
\<close>

definition interval_size :: "BWTInterval \<Rightarrow> int" where
  "interval_size iv = (if isValid iv then upper iv - lower iv + 1 else 0)"

text \<open>
  Modelled from the spec: \<^verbatim>\<open>Interval::isIntersecting\<close> is declared in a header that is not part
  of the sources. The spec speaks of two inclusive ranges that intersect: they share an
  index.
\<close>

definition isIntersecting :: "int \<Rightarrow> int \<Rightarrow> int \<Rightarrow> int \<Rightarrow> bool" where
  "isIntersecting s1 e1 s2 e2 = (max s1 s2 \<le> min e1 e2)"

text \<open>Shorthands for the four coordinates \<^verbatim>\<open>b.ranges.interval[k].lower/upper\<close> of a block.\<close>

definition lower0 :: "'h OverlapBlock \<Rightarrow> int" where
  "lower0 b = lower (interval0 (ranges b))"

definition upper0 :: "'h OverlapBlock \<Rightarrow> int" where
  "upper0 b = upper (interval0 (ranges b))"

definition lower1 :: "'h OverlapBlock \<Rightarrow> int" where
  "lower1 b = lower (interval1 (ranges b))"

definition upper1 :: "'h OverlapBlock \<Rightarrow> int" where
  "upper1 b = upper (interval1 (ranges b))"

text \<open>The assignments \<^verbatim>\<open>b.ranges.interval[k].lower = v\<close> and \<^verbatim>\<open>b.ranges.interval[k].upper = v\<close>.\<close>

definition set_lower0 :: "int \<Rightarrow> 'h OverlapBlock \<Rightarrow> 'h OverlapBlock" where
  "set_lower0 v b = b\<lparr>ranges := (ranges b)\<lparr>interval0 := (interval0 (ranges b))\<lparr>lower := v\<rparr>\<rparr>\<rparr>"

definition set_upper0 :: "int \<Rightarrow> 'h OverlapBlock \<Rightarrow> 'h OverlapBlock" where
  "set_upper0 v b = b\<lparr>ranges := (ranges b)\<lparr>interval0 := (interval0 (ranges b))\<lparr>upper := v\<rparr>\<rparr>\<rparr>"

definition set_lower1 :: "int \<Rightarrow> 'h OverlapBlock \<Rightarrow> 'h OverlapBlock" where
  "set_lower1 v b = b\<lparr>ranges := (ranges b)\<lparr>interval1 := (interval1 (ranges b))\<lparr>lower := v\<rparr>\<rparr>\<rparr>"

definition set_upper1 :: "int \<Rightarrow> 'h OverlapBlock \<Rightarrow> 'h OverlapBlock" where
  "set_upper1 v b = b\<lparr>ranges := (ranges b)\<lparr>interval1 := (interval1 (ranges b))\<lparr>upper := v\<rparr>\<rparr>\<rparr>"

text \<open>The set of read indices an index-0 range denotes.\<close>

definition range0 :: "'h OverlapBlock \<Rightarrow> int set" where
  "range0 b = {lower0 b .. upper0 b}"

text \<open>Two blocks whose index-0 ranges intersect: the test of \<^verbatim>\<open>removeSubMaximalBlocks\<close>.\<close>

definition blocksIntersect :: "'h OverlapBlock \<Rightarrow> 'h OverlapBlock \<Rightarrow> bool" where
  "blocksIntersect a b = isIntersecting (lower0 a) (upper0 a) (lower0 b) (upper0 b)"

subsection \<open>Sorting by left coordinate\<close>

text \<open>
  Modelled from the spec: the comparator \<^verbatim>\<open>OverlapBlock::sortIntervalLeft\<close> is declared in a
  header that is not part of the sources. The spec: blocks are ordered by
  \<^verbatim>\<open>ranges.interval[0].lower\<close> ascending, ties broken by \<^verbatim>\<open>upper\<close> ascending.
\<close>

definition sortIntervalLeft :: "'h OverlapBlock \<Rightarrow> 'h OverlapBlock \<Rightarrow> bool" where
  "sortIntervalLeft ob1 ob2 =
     (lower0 ob1 < lower0 ob2 \<or> (lower0 ob1 = lower0 ob2 \<and> upper0 ob1 < upper0 ob2))"

text \<open>
  \<^verbatim>\<open>std::list::sort(comp)\<close> is a stable sort: the result is the one of a stable insertion
  sort, where an element goes before the first element that is not strictly before it.
\<close>

fun insertBlock :: "'h OverlapBlock \<Rightarrow> 'h OverlapBlock list \<Rightarrow> 'h OverlapBlock list" where
  "insertBlock x [] = [x]"
| "insertBlock x (y # ys) =
     (if sortIntervalLeft y x then y # insertBlock x ys else x # y # ys)"

definition sortBlocks :: "'h OverlapBlock list \<Rightarrow> 'h OverlapBlock list" where
  "sortBlocks xs = foldr insertBlock xs []"

text \<open>
  \<^verbatim>\<open>std::list::merge(other, comp)\<close> of two sorted lists: an element of \<^verbatim>\<open>other\<close> is taken only
  when it is strictly before the current element of the list merged into.
\<close>

fun mergeBlocks :: "'h OverlapBlock list \<Rightarrow> 'h OverlapBlock list \<Rightarrow> 'h OverlapBlock list" where
  "mergeBlocks [] ys = ys"
| "mergeBlocks xs [] = xs"
| "mergeBlocks (x # xs) (y # ys) =
     (if sortIntervalLeft y x then y # mergeBlocks (x # xs) ys
      else x # mergeBlocks xs (y # ys))"

subsection \<open>Machine integers\<close>

text \<open>
  The values an \<^verbatim>\<open>int64_t\<close> holds, and the value a 64-bit two's complement machine leaves
  when an addition or a subtraction of two of them overflows.
\<close>

definition int64 :: "int \<Rightarrow> bool" where
  "int64 v = (- (2 ^ 63) \<le> v \<and> v < 2 ^ 63)"

definition wrap64 :: "int \<Rightarrow> int" where
  "wrap64 v = (v + 2 ^ 63) mod 2 ^ 64 - 2 ^ 63"

text \<open>A block whose four coordinates are \<^verbatim>\<open>int64_t\<close> values, as every block of the program is.\<close>

definition int64Block :: "'h OverlapBlock \<Rightarrow> bool" where
  "int64Block b = (int64 (lower0 b) \<and> int64 (upper0 b) \<and> int64 (lower1 b) \<and> int64 (upper1 b))"

section \<open>resolveOverlap\<close>

text \<open>
  The three assertions after a split. \<^verbatim>\<open>size()\<close> computes in \<^verbatim>\<open>int64_t\<close>, so the two sizes are
  compared as the machine has them.
\<close>

definition splitAssertions :: "'h OverlapBlock \<Rightarrow> bool" where
  "splitAssertions split =
     (wrap64 (interval_size (interval0 (ranges split)))
        = wrap64 (interval_size (interval1 (ranges split)))
      \<and> isValid (interval0 (ranges split)) \<and> isValid (interval1 (ranges split)))"

text \<open>
  The left-hand split of \<^verbatim>\<open>resolveOverlap\<close>: the \<^verbatim>\<open>if\<close> statement that rewrites the local
  \<^verbatim>\<open>split\<close>, checks its three assertions and pushes it. The state is the output list and
  \<^verbatim>\<open>split\<close>. The width \<^verbatim>\<open>diff\<close> and the new index-1 bound are computed with the machine's
  wrap-around. The new index-0 bound \<^verbatim>\<open>higher.lower - 1\<close> is written without it: under the
  guard it is not below \<^verbatim>\<open>lower.lower\<close>, so for \<^verbatim>\<open>int64_t\<close> operands it is in range.
\<close>

definition leftSplit ::
  "'h OverlapBlock \<Rightarrow> 'h OverlapBlock \<Rightarrow> 'h OverlapBlock list \<times> 'h OverlapBlock \<Rightarrow>
   error + ('h OverlapBlock list \<times> 'h OverlapBlock)" where
  "leftSplit pHigher pLower st =
     (case st of (outList, split) \<Rightarrow>
        if lower0 pLower < lower0 pHigher then
          let split = set_lower0 (lower0 pLower) split;
              split = set_upper0 (lower0 pHigher - 1) split;
              diff = wrap64 (upper0 split - lower0 split);
              split = set_lower1 (lower1 pLower) split;
              split = set_upper1 (wrap64 (lower1 split + diff)) split
          in if splitAssertions split
             then Inr (outList @ [split], split)
             else Inl SplitInvariantViolated
        else Inr (outList, split))"

text \<open>
  The right-hand split, on the state the left-hand split left. Under its guard
  \<^verbatim>\<open>higher.upper + 1\<close> is not above \<^verbatim>\<open>lower.upper\<close>.
\<close>

definition rightSplit ::
  "'h OverlapBlock \<Rightarrow> 'h OverlapBlock \<Rightarrow> 'h OverlapBlock list \<times> 'h OverlapBlock \<Rightarrow>
   error + ('h OverlapBlock list \<times> 'h OverlapBlock)" where
  "rightSplit pHigher pLower st =
     (case st of (outList, split) \<Rightarrow>
        if upper0 pLower > upper0 pHigher then
          let split = set_lower0 (upper0 pHigher + 1) split;
              split = set_upper0 (upper0 pLower) split;
              diff = wrap64 (upper0 split - lower0 split);
              split = set_upper1 (upper1 pLower) split;
              split = set_lower1 (wrap64 (upper1 split - diff)) split
          in if splitAssertions split
             then Inr (outList @ [split], split)
             else Inl SplitInvariantViolated
        else Inr (outList, split))"

text \<open>
  \<^verbatim>\<open>resolveOverlap(A, B)\<close>. Assertions are taken as compiled in: a failed one aborts the
  program, here the value \<open>Inl\<close>.
\<close>

definition resolveOverlap ::
  "'h OverlapBlock \<Rightarrow> 'h OverlapBlock \<Rightarrow> error + 'h OverlapBlock list" where
  "resolveOverlap A B =
     (if overlapLen A = overlapLen B then
        (if lower0 A = lower0 B \<and> upper0 A = upper0 B then Inr [A]
         else Inl SameLengthDifferentCoords)
      else
        let (pHigher, pLower) = (if overlapLen A > overlapLen B then (A, B) else (B, A));
            outList = [pHigher];
            split = pLower
        in case leftSplit pHigher pLower (outList, split) of
             Inl e \<Rightarrow> Inl e
           | Inr st \<Rightarrow>
               (case rightSplit pHigher pLower st of
                  Inl e \<Rightarrow> Inl e
                | Inr (outList, split) \<Rightarrow> Inr (sortBlocks outList)))"

text \<open>
  The two blocks \<^verbatim>\<open>pHigher\<close> and \<^verbatim>\<open>pLower\<close> point to, and the two fragments of the lower
  block as the splits compute them: the left fragment spans
  \<^verbatim>\<open>[lower.lower, higher.lower - 1]\<close> on index 0, with index 1 resized from its original
  lower bound by the same width; the right fragment spans
  \<^verbatim>\<open>[higher.upper + 1, lower.upper]\<close>, with index 1 resized from its original upper bound by
  the same width.
\<close>

definition higherBlock :: "'h OverlapBlock \<Rightarrow> 'h OverlapBlock \<Rightarrow> 'h OverlapBlock" where
  "higherBlock A B = (if overlapLen A > overlapLen B then A else B)"

definition lowerBlock :: "'h OverlapBlock \<Rightarrow> 'h OverlapBlock \<Rightarrow> 'h OverlapBlock" where
  "lowerBlock A B = (if overlapLen A > overlapLen B then B else A)"

definition leftFragment :: "'h OverlapBlock \<Rightarrow> 'h OverlapBlock \<Rightarrow> 'h OverlapBlock" where
  "leftFragment L H =
     L\<lparr>ranges := \<lparr>interval0 = \<lparr>lower = lower0 L, upper = lower0 H - 1\<rparr>,
                  interval1 = \<lparr>lower = lower1 L,
                               upper = wrap64 (lower1 L + wrap64 (lower0 H - 1 - lower0 L))\<rparr>\<rparr>\<rparr>"

definition rightFragment :: "'h OverlapBlock \<Rightarrow> 'h OverlapBlock \<Rightarrow> 'h OverlapBlock" where
  "rightFragment L H =
     L\<lparr>ranges := \<lparr>interval0 = \<lparr>lower = upper0 H + 1, upper = upper0 L\<rparr>,
                  interval1 = \<lparr>lower = wrap64 (upper1 L - wrap64 (upper0 L - (upper0 H + 1))),
                               upper = upper1 L\<rparr>\<rparr>\<rparr>"

definition fragments :: "'h OverlapBlock \<Rightarrow> 'h OverlapBlock \<Rightarrow> 'h OverlapBlock list" where
  "fragments L H =
     (if lower0 L < lower0 H then [leftFragment L H] else []) @
     (if upper0 L > upper0 H then [rightFragment L H] else [])"

text \<open>
  The invariant of the spec's data model for an interval pair: both ranges are valid and
  of the same size.
\<close>

definition wellFormed :: "'h OverlapBlock \<Rightarrow> bool" where
  "wellFormed b =
     (interval_size (interval0 (ranges b)) = interval_size (interval1 (ranges b))
      \<and> isValid (interval0 (ranges b)) \<and> isValid (interval1 (ranges b)))"

text \<open>A block with no flags set and no search history, for concrete inputs.\<close>

definition exampleBlock :: "int \<Rightarrow> int \<Rightarrow> int \<Rightarrow> int \<Rightarrow> int \<Rightarrow> unit OverlapBlock" where
  "exampleBlock l0 u0 l1 u1 ol =
     \<lparr>ranges = \<lparr>interval0 = \<lparr>lower = l0, upper = u0\<rparr>,
                 interval1 = \<lparr>lower = l1, upper = u1\<rparr>\<rparr>,
      overlapLen = ol, numDiff = 0,
      flags = \<lparr>isQueryRev = False, isTargetRev = False, isQueryComp = False\<rparr>,
      isEliminated = False, backHistory = (), forwardHistory = ()\<rparr>"

text \<open>
  A block as the search delivers it: the data model's invariant holds and the coordinates
  are \<^verbatim>\<open>int64_t\<close> values.
\<close>

definition goodBlock :: "'h OverlapBlock \<Rightarrow> bool" where
  "goodBlock b = (wellFormed b \<and> int64Block b)"

section \<open>removeSubMaximalBlocks\<close>

text \<open>
  The loop of \<^verbatim>\<open>removeSubMaximalBlocks\<close>. The list is \<open>pre @ cur\<close>, the iterator \<^verbatim>\<open>iter\<close>
  stands at the head of \<open>cur\<close>. When \<^verbatim>\<open>iter\<close> and \<^verbatim>\<open>next\<close> intersect, both are erased, the
  resolved list is merged into what is left and the scan restarts at the head; a failure of
  \<^verbatim>\<open>resolveOverlap\<close> aborts. Not returning is the value \<open>None\<close>.
\<close>

partial_function (option) scanBlocks ::
  "'h OverlapBlock list \<Rightarrow> 'h OverlapBlock list \<Rightarrow> (error + 'h OverlapBlock list) option" where
  "scanBlocks pre cur =
     (case cur of
        [] \<Rightarrow> Some (Inr pre)
      | iter # t \<Rightarrow>
          (case t of
             [] \<Rightarrow> Some (Inr (pre @ [iter]))
           | next # rest \<Rightarrow>
               if isIntersecting (lower0 iter) (upper0 iter) (lower0 next) (upper0 next) then
                 (case resolveOverlap iter next of
                    Inl e \<Rightarrow> Some (Inl e)
                  | Inr resolvedList \<Rightarrow> scanBlocks [] (mergeBlocks (pre @ rest) resolvedList))
               else scanBlocks (pre @ [iter]) t))"

text \<open>
  \<^verbatim>\<open>removeSubMaximalBlocks(pList)\<close>: sort, then scan from the head. The iterator \<^verbatim>\<open>last\<close> of
  the source is set before the loop and never read.
\<close>

definition removeSubMaximalBlocks ::
  "'h OverlapBlock list \<Rightarrow> (error + 'h OverlapBlock list) option" where
  "removeSubMaximalBlocks pList = scanBlocks [] (sortBlocks pList)"

text \<open>No two neighbours of a list have intersecting index-0 ranges.\<close>

fun noAdjacentIntersect :: "'h OverlapBlock list \<Rightarrow> bool" where
  "noAdjacentIntersect (x # y # rest) = (\<not> blocksIntersect x y \<and> noAdjacentIntersect (y # rest))"
| "noAdjacentIntersect xs = True"

text \<open>A list in the order of the comparator: no later block is strictly before an earlier one.\<close>

definition sortedLeft :: "'h OverlapBlock list \<Rightarrow> bool" where
  "sortedLeft xs = sorted_wrt (\<lambda>a b. \<not> sortIntervalLeft b a) xs"

text \<open>The number of read indices of a block's index-0 range, and of a list of blocks.\<close>

definition blockSize :: "'h OverlapBlock \<Rightarrow> nat" where
  "blockSize b = nat (interval_size (interval0 (ranges b)))"

definition totalSize :: "'h OverlapBlock list \<Rightarrow> nat" where
  "totalSize xs = sum_list (map blockSize xs)"

text \<open>
  What a run of the scan that started from the blocks \<open>S\<close> ends with: an abort of
  \<^verbatim>\<open>resolveOverlap\<close>, which for blocks as the search delivers them is the one on equal
  lengths, or a sorted list with no intersecting neighbours that covers the same read
  indices, of valid ranges when those of \<open>S\<close> are.
\<close>

definition resolvedFrom :: "'h OverlapBlock set \<Rightarrow> error + 'h OverlapBlock list \<Rightarrow> bool" where
  "resolvedFrom S r =
     (case r of
        Inl e \<Rightarrow>
          (e = SameLengthDifferentCoords \<or> e = SplitInvariantViolated)
          \<and> ((\<forall>b \<in> S. goodBlock b) \<longrightarrow> e = SameLengthDifferentCoords)
      | Inr out \<Rightarrow>
          sortedLeft out \<and> noAdjacentIntersect out
          \<and> \<Union> (range0 ` set out) = \<Union> (range0 ` S)
          \<and> ((\<forall>b \<in> S. isValid (interval0 (ranges b))) \<longrightarrow>
               (\<forall>b \<in> set out. isValid (interval0 (ranges b))))
          \<and> ((\<forall>b \<in> S. goodBlock b) \<longrightarrow> (\<forall>b \<in> set out. goodBlock b)))"

section \<open>partitionBlockList\<close>

text \<open>
  The loop of \<^verbatim>\<open>partitionBlockList\<close>: the iterator stands at the head of what is left of the
  complete list, and each step splices that block to the end of one of the two output
  lists. The three lists are taken to be distinct objects.
\<close>

fun partitionLoop ::
  "int \<Rightarrow> 'h OverlapBlock list \<Rightarrow> 'h OverlapBlock list \<Rightarrow> 'h OverlapBlock list \<Rightarrow>
   'h OverlapBlock list \<times> 'h OverlapBlock list \<times> 'h OverlapBlock list" where
  "partitionLoop readLen [] pOverlapList pContainList = ([], pOverlapList, pContainList)"
| "partitionLoop readLen (iter # rest) pOverlapList pContainList =
     (if overlapLen iter = readLen
      then partitionLoop readLen rest pOverlapList (pContainList @ [iter])
      else partitionLoop readLen rest (pOverlapList @ [iter]) pContainList)"

text \<open>The result is the three lists after the call: complete, overlap, containment.\<close>

definition partitionBlockList ::
  "int \<Rightarrow> 'h OverlapBlock list \<Rightarrow> 'h OverlapBlock list \<Rightarrow> 'h OverlapBlock list \<Rightarrow>
   'h OverlapBlock list \<times> 'h OverlapBlock list \<times> 'h OverlapBlock list" where
  "partitionBlockList readLen pCompleteList pOverlapList pContainList =
     partitionLoop readLen pCompleteList pOverlapList pContainList"

section \<open>Overlaps and multi-overlaps\<close>

text \<open>
  Modelled from the spec: \<^verbatim>\<open>SeqCoord\<close> is declared in a header that is not part of the
  sources. The spec: a coordinate is \<^verbatim>\<open>(start, end, totalLength)\<close>; \<^verbatim>\<open>flip()\<close> maps
  \<^verbatim>\<open>(start, end)\<close> to \<^verbatim>\<open>(totalLength-1-end, totalLength-1-start)\<close>; \<^verbatim>\<open>isContained()\<close> holds when
  \<^verbatim>\<open>start == 0\<close> and \<^verbatim>\<open>end == totalLength-1\<close>.
\<close>

record SeqCoord =
  sc_start :: int
  sc_end :: int
  seqlen :: int

definition flip :: "SeqCoord \<Rightarrow> SeqCoord" where
  "flip c = \<lparr>sc_start = seqlen c - 1 - sc_end c, sc_end = seqlen c - 1 - sc_start c,
             seqlen = seqlen c\<rparr>"

definition isContained :: "SeqCoord \<Rightarrow> bool" where
  "isContained c = (sc_start c = 0 \<and> sc_end c = seqlen c - 1)"

text \<open>The spec's invariant of a coordinate: \<^verbatim>\<open>0 \<le> start \<le> end < totalLength\<close>.\<close>

definition validCoord :: "SeqCoord \<Rightarrow> bool" where
  "validCoord c = (0 \<le> sc_start c \<and> sc_start c \<le> sc_end c \<and> sc_end c < seqlen c)"

text \<open>
  Modelled from the spec: \<^verbatim>\<open>Overlap\<close> is declared in a header that is not part of the sources.
  The spec: query id and coordinate, target id and coordinate, the reverse-complement flag
  and the number of differences, in the order of the constructor's arguments.
\<close>

record Overlap =
  queryId :: string
  queryCoord :: SeqCoord
  targetId :: string
  targetCoord :: SeqCoord
  isRC :: bool
  numDifferences :: int

text \<open>
  \<^verbatim>\<open>OverlapBlock::toOverlap\<close>. \<^verbatim>\<open>AlignFlags::isReverseComplement\<close> is declared in a header that
  is not part of the sources, and the spec does not say how it is derived from the three
  flags: it is the parameter \<open>isReverseComplement\<close>.
\<close>

definition toOverlap ::
  "(AlignFlags \<Rightarrow> bool) \<Rightarrow> 'h OverlapBlock \<Rightarrow> string \<Rightarrow> string \<Rightarrow> int \<Rightarrow> int \<Rightarrow> Overlap" where
  "toOverlap isReverseComplement blk queryID targetID queryLen targetLen =
     (let s1 = queryLen - overlapLen blk;
          e1 = s1 + overlapLen blk - 1;
          sc1 = \<lparr>sc_start = s1, sc_end = e1, seqlen = queryLen\<rparr>;
          s2 = 0;
          e2 = s2 + overlapLen blk - 1;
          sc2 = \<lparr>sc_start = s2, sc_end = e2, seqlen = targetLen\<rparr>;
          sc1 = (if isQueryRev (flags blk) then flip sc1 else sc1);
          sc2 = (if isTargetRev (flags blk) then flip sc2 else sc2);
          isRC = isReverseComplement (flags blk)
      in \<lparr>queryId = queryID, queryCoord = sc1, targetId = targetID, targetCoord = sc2,
          isRC = isRC, numDifferences = numDiff blk\<rparr>)"

text \<open>\<^verbatim>\<open>makeIdxString\<close>: the decimal digits a string stream prints for an \<^verbatim>\<open>int64_t\<close>.\<close>

definition digitChar :: "nat \<Rightarrow> char" where
  "digitChar d = ''0123456789'' ! d"

function natToString :: "nat \<Rightarrow> string" where
  "natToString n = (if n < 10 then [digitChar n] else natToString (n div 10) @ [digitChar (n mod 10)])"
  by pat_completeness auto
termination
  by (relation "measure id") auto

declare natToString.simps [simp del]

definition makeIdxString :: "int \<Rightarrow> string" where
  "makeIdxString idx = (if idx < 0 then CHR ''-'' # natToString (nat (- idx)) else natToString (nat idx))"

text \<open>
  Modelled from the spec: \<^verbatim>\<open>MultiOverlap\<close> is declared in a header that is not part of the
  sources. The spec: the anchor read's id and sequence and an ordered collection of
  \<^verbatim>\<open>(alignedString, Overlap)\<close> pairs, to which \<^verbatim>\<open>add\<close> appends one entry.
\<close>

record MultiOverlap =
  rootID :: string
  rootSeq :: string
  overlaps :: "(string \<times> Overlap) list"

definition mo_add :: "string \<Rightarrow> Overlap \<Rightarrow> MultiOverlap \<Rightarrow> MultiOverlap" where
  "mo_add s ov out = out\<lparr>overlaps := overlaps out @ [(s, ov)]\<rparr>"

text \<open>
  \<^verbatim>\<open>OverlapBlock::getOverlapString\<close>. The history's \<^verbatim>\<open>transform\<close> is of a class that is not
  part of the sources: it is the parameter \<open>transform\<close>. \<^verbatim>\<open>substr(0, overlapLen)\<close> converts
  the length to an unsigned one, so a negative length takes the whole string;
  \<^verbatim>\<open>substr(length - overlapLen)\<close> throws when the unsigned position is past the end, which
  is when \<^verbatim>\<open>overlapLen\<close> is negative or longer than the string.
\<close>

definition getOverlapString ::
  "('h \<Rightarrow> string \<Rightarrow> bool \<Rightarrow> string) \<Rightarrow> 'h OverlapBlock \<Rightarrow> string \<Rightarrow> error + string" where
  "getOverlapString transform blk original =
     (let transformed = transform (backHistory blk) original (isQueryRev (flags blk))
      in if isQueryRev (flags blk) then
           Inr (if overlapLen blk < 0 then transformed
                else take (nat (overlapLen blk)) transformed)
         else if 0 \<le> overlapLen blk \<and> overlapLen blk \<le> int (length transformed) then
           Inr (drop (nat (int (length transformed) - overlapLen blk)) transformed)
         else Inl SubstrOutOfRange)"

text \<open>The inner loop of \<^verbatim>\<open>blockListToMultiOverlap\<close>: one overlap for each member of the block.\<close>

function addMembers ::
  "string \<Rightarrow> SeqCoord \<Rightarrow> SeqCoord \<Rightarrow> string \<Rightarrow> int \<Rightarrow> int \<Rightarrow> MultiOverlap \<Rightarrow> MultiOverlap" where
  "addMembers read_idx sc1 sc2 overlap_string i up out =
     (if i \<le> up then
        addMembers read_idx sc1 sc2 overlap_string (i + 1) up
          (mo_add overlap_string
             \<lparr>queryId = read_idx, queryCoord = sc1, targetId = makeIdxString i,
              targetCoord = sc2, isRC = False, numDifferences = - 1\<rparr> out)
      else out)"
  by pat_completeness auto
termination
  by (relation "measure (\<lambda>(read_idx, sc1, sc2, overlap_string, i, up, out). nat (up + 1 - i))") auto

declare addMembers.simps [simp del]

text \<open>
  The loop over the blocks, the same text in \<^verbatim>\<open>blockListToMultiOverlap\<close> of
  \<^verbatim>\<open>OverlapBlock.cpp\<close> and of \<^verbatim>\<open>ErrorCorrectProcess.cpp\<close>. An exception of
  \<^verbatim>\<open>getOverlapString\<close> ends it.
\<close>

fun multiOverlapLoop ::
  "('h \<Rightarrow> string \<Rightarrow> bool \<Rightarrow> string) \<Rightarrow> string \<Rightarrow> string \<Rightarrow> 'h OverlapBlock list \<Rightarrow>
   MultiOverlap \<Rightarrow> error + MultiOverlap" where
  "multiOverlapLoop transform read_idx read_seq [] out = Inr out"
| "multiOverlapLoop transform read_idx read_seq (iter # rest) out =
     (case getOverlapString transform iter read_seq of
        Inl e \<Rightarrow> Inl e
      | Inr overlap_string \<Rightarrow>
          (let s1 = int (length read_seq) - overlapLen iter;
               e1 = s1 + overlapLen iter - 1;
               sc1 = \<lparr>sc_start = s1, sc_end = e1, seqlen = int (length read_seq)\<rparr>;
               s2 = 0;
               e2 = s2 + overlapLen iter - 1;
               sc2 = \<lparr>sc_start = s2, sc_end = e2, seqlen = int (length overlap_string)\<rparr>;
               sc1 = (if isQueryRev (flags iter) then flip sc1 else sc1);
               sc2 = (if isTargetRev (flags iter) then flip sc2 else sc2)
           in if isContained sc1 then multiOverlapLoop transform read_idx read_seq rest out
              else multiOverlapLoop transform read_idx read_seq rest
                     (addMembers read_idx sc1 sc2 overlap_string (lower0 iter) (upper0 iter) out)))"

record SeqRecord =
  id_str :: string
  seq :: string

record SequenceWorkItem =
  idx :: nat
  read :: SeqRecord


text \<open>
  \<^verbatim>\<open>ErrorCorrectProcess::blockListToMultiOverlap\<close>: the anchor id is \<^verbatim>\<open>makeIdxString(-1)\<close>.
\<close>

definition ECP_blockListToMultiOverlap ::
  "('h \<Rightarrow> string \<Rightarrow> bool \<Rightarrow> string) \<Rightarrow> SequenceWorkItem \<Rightarrow> 'h OverlapBlock list \<Rightarrow>
   error + MultiOverlap" where
  "ECP_blockListToMultiOverlap transform item blockList =
     (let read_idx = makeIdxString (- 1);
          read_seq = seq (read item);
          out = \<lparr>rootID = read_idx, rootSeq = read_seq, overlaps = []\<rparr>
      in multiOverlapLoop transform read_idx read_seq blockList out)"

text \<open>
  The entries the spec gives one block: none when its query coordinate, after the flip, is
  a full containment, else one per index of its index-0 range, with the printed index as
  the target id.
\<close>

definition blockCoords ::
  "'h OverlapBlock \<Rightarrow> int \<Rightarrow> int \<Rightarrow> SeqCoord \<times> SeqCoord" where
  "blockCoords b queryLen targetLen =
     ((if isQueryRev (flags b)
       then flip \<lparr>sc_start = queryLen - overlapLen b, sc_end = queryLen - 1, seqlen = queryLen\<rparr>
       else \<lparr>sc_start = queryLen - overlapLen b, sc_end = queryLen - 1, seqlen = queryLen\<rparr>),
      (if isTargetRev (flags b)
       then flip \<lparr>sc_start = 0, sc_end = overlapLen b - 1, seqlen = targetLen\<rparr>
       else \<lparr>sc_start = 0, sc_end = overlapLen b - 1, seqlen = targetLen\<rparr>))"

definition blockEntries ::
  "string \<Rightarrow> string \<Rightarrow> string \<Rightarrow> 'h OverlapBlock \<Rightarrow> (string \<times> Overlap) list" where
  "blockEntries read_idx read_seq overlap_string b =
     (let (sc1, sc2) = blockCoords b (int (length read_seq)) (int (length overlap_string))
      in if isContained sc1 then []
         else map (\<lambda>i. (overlap_string,
                         \<lparr>queryId = read_idx, queryCoord = sc1, targetId = makeIdxString i,
                          targetCoord = sc2, isRC = False, numDifferences = - 1\<rparr>))
                  [lower0 b .. upper0 b])"

text \<open>The entries of one block, none when the overlap string cannot be taken.\<close>

definition entriesOf ::
  "('h \<Rightarrow> string \<Rightarrow> bool \<Rightarrow> string) \<Rightarrow> string \<Rightarrow> string \<Rightarrow> 'h OverlapBlock \<Rightarrow>
   (string \<times> Overlap) list" where
  "entriesOf transform read_idx read_seq b =
     (case getOverlapString transform b read_seq of
        Inl e \<Rightarrow> []
      | Inr overlap_string \<Rightarrow> blockEntries read_idx read_seq overlap_string b)"

section \<open>ErrorCorrectProcess::process\<close>

datatype ErrorCorrectFlag = ECF_NOT_CORRECTED | ECF_CORRECTED

record ErrorCorrectResult =
  correctSequence :: string
  flag :: ErrorCorrectFlag

text \<open>
  \<^verbatim>\<open>ErrorCorrectProcess::process\<close>. The overlapper's \<^verbatim>\<open>overlapRead\<close>, which fills the member
  \<^verbatim>\<open>m_blockList\<close>, and \<^verbatim>\<open>MultiOverlap::calculateConsensusFromPartition\<close> are not part of the
  sources: they are parameters, taken to return. The constant \<^verbatim>\<open>0.01f\<close> is taken as 1/100.
  The result comes with the member list as the call leaves it.
\<close>

definition process ::
  "(SeqRecord \<Rightarrow> int \<Rightarrow> 'h OverlapBlock list \<Rightarrow> 'r \<times> 'h OverlapBlock list) \<Rightarrow>
   (MultiOverlap \<Rightarrow> real \<Rightarrow> string) \<Rightarrow> ('h \<Rightarrow> string \<Rightarrow> bool \<Rightarrow> string) \<Rightarrow>
   int \<Rightarrow> 'h OverlapBlock list \<Rightarrow> SequenceWorkItem \<Rightarrow>
   error + (ErrorCorrectResult \<times> 'h OverlapBlock list)" where
  "process overlapRead calculateConsensusFromPartition transform m_minOverlap m_blockList workItem =
     (let p_error = 1 / 100;
          (overlap_result, m_blockList) = overlapRead (read workItem) m_minOverlap m_blockList
      in case ECP_blockListToMultiOverlap transform workItem m_blockList of
           Inl e \<Rightarrow> Inl e
         | Inr mo \<Rightarrow>
             (let result = \<lparr>correctSequence = calculateConsensusFromPartition mo p_error,
                            flag = ECF_CORRECTED\<rparr>;
                  m_blockList = []
              in Inr (result, m_blockList)))"

section \<open>Pileup::calculateSimpleAlphaProb\<close>

text \<open>
  The arithmetic of \<^verbatim>\<open>double\<close> and the functions \<^verbatim>\<open>exp\<close> and \<^verbatim>\<open>log\<close> of \<^verbatim>\<open>math.h\<close> are not part
  of the sources: they are the parameter \<open>ops\<close>, with the constants 0 and 1 the source
  writes. The model then says which operations the code applies to which values, in which
  order, whatever they round to and also where they give an infinity or a NaN.
\<close>

record 'd arith =
  d_zero :: 'd
  d_one :: 'd
  d_add :: "'d \<Rightarrow> 'd \<Rightarrow> 'd"
  d_sub :: "'d \<Rightarrow> 'd \<Rightarrow> 'd"
  d_exp :: "'d \<Rightarrow> 'd"
  d_log :: "'d \<Rightarrow> 'd"

record 'd PUElem =
  base :: char
  lp :: 'd

text \<open>
  Modelled from the spec: \<^verbatim>\<open>AlphaProb\<close> is declared in a header that is not part of the
  sources. The spec: a probability per base; \<^verbatim>\<open>set\<close> and \<^verbatim>\<open>get\<close> write and read one base's
  entry. A fresh one holds 0 everywhere.
\<close>

type_synonym 'd AlphaProb = "char \<Rightarrow> 'd"

text \<open>\<^verbatim>\<open>m_data[i]\<close>: a read past the end of the vector is an error of the model.\<close>

definition elemAt :: "'d PUElem list \<Rightarrow> nat \<Rightarrow> error + 'd PUElem" where
  "elemAt m_data i = (if i < length m_data then Inr (m_data ! i) else Inl IndexOutOfBounds)"

text \<open>
  The inner loop over the observations for the candidate base \<open>b\<close>: the fourth argument is
  what is left of \<^verbatim>\<open>m_data\<close> from the loop index on. The probability read is that of
  \<^verbatim>\<open>m_data[1]\<close>, as the source has it.
\<close>

fun accumulatePosterior ::
  "'d arith \<Rightarrow> char \<Rightarrow> 'd PUElem list \<Rightarrow> 'd PUElem list \<Rightarrow> 'd \<Rightarrow> error + 'd" where
  "accumulatePosterior ops b m_data [] posterior = Inr posterior"
| "accumulatePosterior ops b m_data (e # es) posterior =
     (if base e = b then
        (case elemAt m_data 1 of
           Inl err \<Rightarrow> Inl err
         | Inr e1 \<Rightarrow>
             accumulatePosterior ops b m_data es
               (d_add ops posterior (d_log ops (d_sub ops (d_one ops) (d_exp ops (lp e1))))))
      else
        (case elemAt m_data 1 of
           Inl err \<Rightarrow> Inl err
         | Inr e1 \<Rightarrow> accumulatePosterior ops b m_data es (d_add ops posterior (lp e1))))"

text \<open>
  The loop over the alphabet. \<^verbatim>\<open>ALPHABET\<close> and \<^verbatim>\<open>DNA_ALPHABET_SIZE\<close> are declared in a header
  that is not part of the sources: the list of the first \<^verbatim>\<open>DNA_ALPHABET_SIZE\<close> symbols is the
  parameter \<open>alphabet\<close>.
\<close>

fun posteriorLoop ::
  "'d arith \<Rightarrow> char list \<Rightarrow> 'd PUElem list \<Rightarrow> 'd AlphaProb \<Rightarrow> error + 'd AlphaProb" where
  "posteriorLoop ops [] m_data ap = Inr ap"
| "posteriorLoop ops (b # bs) m_data ap =
     (case accumulatePosterior ops b m_data m_data (d_zero ops) of
        Inl err \<Rightarrow> Inl err
      | Inr posterior \<Rightarrow> posteriorLoop ops bs m_data (ap(b := posterior)))"

fun marginalLoop :: "'d arith \<Rightarrow> char list \<Rightarrow> 'd AlphaProb \<Rightarrow> 'd \<Rightarrow> 'd" where
  "marginalLoop ops [] ap marginal = marginal"
| "marginalLoop ops (b # bs) ap marginal =
     marginalLoop ops bs ap (d_add ops marginal (d_exp ops (ap b)))"

fun scaleLoop :: "'d arith \<Rightarrow> char list \<Rightarrow> 'd \<Rightarrow> 'd AlphaProb \<Rightarrow> 'd AlphaProb" where
  "scaleLoop ops [] marginal ap = ap"
| "scaleLoop ops (b # bs) marginal ap =
     scaleLoop ops bs marginal (ap(b := d_sub ops (ap b) marginal))"

definition calculateSimpleAlphaProb ::
  "'d arith \<Rightarrow> char list \<Rightarrow> 'd PUElem list \<Rightarrow> error + 'd AlphaProb" where
  "calculateSimpleAlphaProb ops alphabet m_data =
     (if m_data = [] then Inl EmptyPileup
      else case posteriorLoop ops alphabet m_data (\<lambda>c. d_zero ops) of
             Inl err \<Rightarrow> Inl err
           | Inr ap \<Rightarrow>
               (let marginal = marginalLoop ops alphabet ap (d_zero ops);
                    marginal = d_log ops marginal
                in Inr (scaleLoop ops alphabet marginal ap)))"

text \<open>
  The arithmetic of the real numbers, in which the spec states its posterior. It stands for
  the doubles only at observations whose probabilities are far from the limits of the
  double range and where every logarithm is taken of a positive number.
\<close>

definition realArith :: "real arith" where
  "realArith = \<lparr>d_zero = 0, d_one = 1, d_add = (+), d_sub = (-), d_exp = exp, d_log = ln\<rparr>"

text \<open>
  The spec's posterior before normalisation: the sum over all observations of the log of
  \<^verbatim>\<open>1 - p_error\<close> when the observation is \<open>b\<close>, else of \<^verbatim>\<open>p_error\<close> split across the remaining
  \<open>nsym - 1\<close> symbols, with each observation's own error probability \<open>exp (lp e)\<close>.
\<close>

definition spec_posterior :: "nat \<Rightarrow> char \<Rightarrow> real PUElem list \<Rightarrow> real" where
  "spec_posterior nsym b m_data =
     (\<Sum>e\<leftarrow>m_data. if base e = b then ln (1 - exp (lp e))
                   else ln (exp (lp e) / (real nsym - 1)))"

text \<open>
  The spec's log-posterior: the posterior above minus the log of the sum, over the bases of
  the alphabet, of the exponentials of their posteriors.
\<close>

definition spec_alphaProb :: "char list \<Rightarrow> real PUElem list \<Rightarrow> char \<Rightarrow> real" where
  "spec_alphaProb alphabet m_data b =
     spec_posterior (length alphabet) b m_data
       - ln (\<Sum>c\<leftarrow>alphabet. exp (spec_posterior (length alphabet) c m_data))"

text \<open>
  What the source accumulates, in its order, when every observation carries the same log
  error probability \<open>l\<close>: the error probability of a mismatch is not split. And the log of
  the sum, in the order of the alphabet, of the exponentials of these posteriors.
\<close>

definition uniform_posterior :: "'d arith \<Rightarrow> 'd \<Rightarrow> char \<Rightarrow> 'd PUElem list \<Rightarrow> 'd" where
  "uniform_posterior ops l b m_data =
     foldl (\<lambda>posterior e.
              d_add ops posterior
                (if base e = b then d_log ops (d_sub ops (d_one ops) (d_exp ops l)) else l))
       (d_zero ops) m_data"

definition uniform_marginal :: "'d arith \<Rightarrow> 'd \<Rightarrow> char list \<Rightarrow> 'd PUElem list \<Rightarrow> 'd" where
  "uniform_marginal ops l alphabet m_data =
     d_log ops
       (foldl (\<lambda>marginal c. d_add ops marginal (d_exp ops (uniform_posterior ops l c m_data)))
          (d_zero ops) alphabet)"

section \<open>Properties of resolveOverlap\<close>

lemmas coord_defs = lower0_def upper0_def lower1_def upper1_def
  set_lower0_def set_upper0_def set_lower1_def set_upper1_def

subsection \<open>Wrap-around\<close>

lemma wrap64_id: "int64 v \<Longrightarrow> wrap64 v = v"
  by (simp add: int64_def wrap64_def)

lemma int64_wrap64: "int64 (wrap64 v)"
proof -
  have "0 \<le> (v + 2 ^ 63) mod (2 ^ 64 :: int)" "(v + 2 ^ 63) mod (2 ^ 64 :: int) < 2 ^ 64"
    by simp_all
  then show ?thesis by (simp add: int64_def wrap64_def)
qed

lemma wrap64_add_wrap64: "wrap64 (a + wrap64 b) = wrap64 (a + b)"
proof -
  have "(a + ((b + 2 ^ 63) mod 2 ^ 64 - 2 ^ 63) + 2 ^ 63) mod (2 ^ 64 :: int)
      = (a + (b + 2 ^ 63) mod 2 ^ 64) mod 2 ^ 64"
    by simp
  also have "\<dots> = (a + (b + 2 ^ 63)) mod 2 ^ 64"
    by (rule mod_add_right_eq)
  finally show ?thesis by (simp add: wrap64_def add.assoc)
qed

lemma wrap64_diff_wrap64: "wrap64 (a - wrap64 b) = wrap64 (a - b)"
proof -
  have "(a - ((b + 2 ^ 63) mod 2 ^ 64 - 2 ^ 63) + 2 ^ 63) mod (2 ^ 64 :: int)
      = (a + 2 ^ 63 + 2 ^ 63 - (b + 2 ^ 63) mod 2 ^ 64) mod 2 ^ 64"
    by (simp add: algebra_simps)
  also have "\<dots> = (a + 2 ^ 63 + 2 ^ 63 - (b + 2 ^ 63)) mod 2 ^ 64"
    by (rule mod_diff_right_eq)
  also have "\<dots> = (a - b + 2 ^ 63) mod 2 ^ 64"
    by (simp add: algebra_simps)
  finally show ?thesis by (simp add: wrap64_def)
qed

subsection \<open>The two splits\<close>

lemma leftSplit_eq:
  "leftSplit H L (out, L) =
     (if lower0 L < lower0 H then
        (if splitAssertions (leftFragment L H)
         then Inr (out @ [leftFragment L H], leftFragment L H)
         else Inl SplitInvariantViolated)
      else Inr (out, L))"
  by (simp add: leftSplit_def Let_def coord_defs leftFragment_def splitAssertions_def
      interval_size_def isValid_def)

lemma rightSplit_eq:
  "rightSplit H L (out, L\<lparr>ranges := r0\<rparr>) =
     (if upper0 L > upper0 H then
        (if splitAssertions (rightFragment L H)
         then Inr (out @ [rightFragment L H], rightFragment L H)
         else Inl SplitInvariantViolated)
      else Inr (out, L\<lparr>ranges := r0\<rparr>))"
  by (simp add: rightSplit_def Let_def coord_defs rightFragment_def splitAssertions_def
      interval_size_def isValid_def)

lemma rightSplit_eq_same:
  "rightSplit H L (out, L) =
     (if upper0 L > upper0 H then
        (if splitAssertions (rightFragment L H)
         then Inr (out @ [rightFragment L H], rightFragment L H)
         else Inl SplitInvariantViolated)
      else Inr (out, L))"
  using rightSplit_eq[of H L out "ranges L"] by simp

lemma split_both:
  "(case leftSplit H L ([H], L) of Inl e \<Rightarrow> Inl e
    | Inr st \<Rightarrow> (case rightSplit H L st of Inl e \<Rightarrow> Inl e
                  | Inr (outList, split) \<Rightarrow> Inr (sortBlocks outList))) =
   (if \<forall>f \<in> set (fragments L H). splitAssertions f
    then Inr (sortBlocks (H # fragments L H))
    else Inl SplitInvariantViolated)"
proof (cases "lower0 L < lower0 H")
  case True
  show ?thesis
  proof (cases "splitAssertions (leftFragment L H)")
    case ok: True
    have "leftSplit H L ([H], L) =
        Inr ([H, leftFragment L H], L\<lparr>ranges := ranges (leftFragment L H)\<rparr>)"
      using True ok by (simp add: leftSplit_eq leftFragment_def)
    then show ?thesis
      using True ok by (simp add: rightSplit_eq fragments_def)
  next
    case False
    with True show ?thesis by (simp add: leftSplit_eq fragments_def)
  qed
next
  case False
  have "leftSplit H L ([H], L) = Inr ([H], L)"
    using False by (simp add: leftSplit_eq)
  then show ?thesis
    using False by (simp add: rightSplit_eq_same fragments_def)
qed

lemma resolveOverlap_distinct:
  assumes "overlapLen A \<noteq> overlapLen B"
  shows "resolveOverlap A B =
           (if \<forall>f \<in> set (fragments (lowerBlock A B) (higherBlock A B)). splitAssertions f
            then Inr (sortBlocks (higherBlock A B # fragments (lowerBlock A B) (higherBlock A B)))
            else Inl SplitInvariantViolated)"
proof (cases "overlapLen A > overlapLen B")
  case True
  then have "resolveOverlap A B =
      (if \<forall>f \<in> set (fragments B A). splitAssertions f
       then Inr (sortBlocks (A # fragments B A)) else Inl SplitInvariantViolated)"
    using assms split_both[of A B] by (simp add: resolveOverlap_def)
  then show ?thesis using True by (simp add: higherBlock_def lowerBlock_def)
next
  case False
  then have "resolveOverlap A B =
      (if \<forall>f \<in> set (fragments A B). splitAssertions f
       then Inr (sortBlocks (B # fragments A B)) else Inl SplitInvariantViolated)"
    using assms split_both[of B A] by (simp add: resolveOverlap_def)
  then show ?thesis using False by (simp add: higherBlock_def lowerBlock_def)
qed

lemma resolveOverlap_distinct_Inr:
  assumes "overlapLen A \<noteq> overlapLen B"
    and "\<forall>f \<in> set (fragments (lowerBlock A B) (higherBlock A B)). splitAssertions f"
  shows "resolveOverlap A B =
           Inr (sortBlocks (higherBlock A B # fragments (lowerBlock A B) (higherBlock A B)))"
proof -
  note resolveOverlap_distinct[OF assms(1)]
  also have "(if \<forall>f \<in> set (fragments (lowerBlock A B) (higherBlock A B)). splitAssertions f
       then Inr (sortBlocks (higherBlock A B # fragments (lowerBlock A B) (higherBlock A B)))
       else Inl SplitInvariantViolated)
      = Inr (sortBlocks (higherBlock A B # fragments (lowerBlock A B) (higherBlock A B)))"
    using assms(2) by (rule if_P)
  finally show ?thesis .
qed

text \<open>
  For intersecting blocks, a lower block that satisfies the data model's invariant and has
  \<^verbatim>\<open>int64_t\<close> coordinates, no step of a split overflows in its result: the index-1 bound is
  the exact sum or difference, the fragment again satisfies the invariant within the
  range, and its assertions hold.
\<close>

lemma leftFragment_good:
  assumes "blocksIntersect L H" and "goodBlock L" and "lower0 L < lower0 H"
  shows "upper1 (leftFragment L H) = lower1 L + (lower0 H - 1 - lower0 L)"
    and "goodBlock (leftFragment L H)" and "splitAssertions (leftFragment L H)"
proof -
  from assms have b: "lower1 L \<le> lower1 L + (lower0 H - 1 - lower0 L)"
    "lower1 L + (lower0 H - 1 - lower0 L) \<le> upper1 L"
    "int64 (lower0 L)" "int64 (upper0 L)" "int64 (lower1 L)" "int64 (upper1 L)"
    "lower0 H - 1 \<le> upper0 L"
    by (auto simp: blocksIntersect_def isIntersecting_def goodBlock_def wellFormed_def
        int64Block_def interval_size_def isValid_def lower0_def upper0_def lower1_def upper1_def
        split: if_splits)
  then have i: "int64 (lower1 L + (lower0 H - 1 - lower0 L))" "int64 (lower0 H - 1)"
    using assms(3) by (simp_all add: int64_def)
  have w: "wrap64 (lower1 L + wrap64 (lower0 H - 1 - lower0 L))
      = lower1 L + (lower0 H - 1 - lower0 L)"
    using i(1) by (simp add: wrap64_add_wrap64 wrap64_id)
  show u: "upper1 (leftFragment L H) = lower1 L + (lower0 H - 1 - lower0 L)"
    using w by (simp add: leftFragment_def upper1_def)
  have wf: "wellFormed (leftFragment L H)"
    using assms(3) b(1) w
    by (simp add: wellFormed_def leftFragment_def interval_size_def isValid_def)
  moreover have "int64Block (leftFragment L H)"
    using b i w
    by (simp add: int64Block_def leftFragment_def lower0_def upper0_def lower1_def upper1_def)
  ultimately show "goodBlock (leftFragment L H)" by (simp add: goodBlock_def)
  from wf show "splitAssertions (leftFragment L H)"
    by (simp add: wellFormed_def splitAssertions_def)
qed

lemma rightFragment_good:
  assumes "blocksIntersect L H" and "goodBlock L" and "upper0 L > upper0 H"
  shows "lower1 (rightFragment L H) = upper1 L - (upper0 L - (upper0 H + 1))"
    and "goodBlock (rightFragment L H)" and "splitAssertions (rightFragment L H)"
proof -
  from assms have b: "upper1 L - (upper0 L - (upper0 H + 1)) \<le> upper1 L"
    "lower1 L \<le> upper1 L - (upper0 L - (upper0 H + 1))"
    "int64 (lower0 L)" "int64 (upper0 L)" "int64 (lower1 L)" "int64 (upper1 L)"
    "lower0 L \<le> upper0 H + 1"
    by (auto simp: blocksIntersect_def isIntersecting_def goodBlock_def wellFormed_def
        int64Block_def interval_size_def isValid_def lower0_def upper0_def lower1_def upper1_def
        split: if_splits)
  then have i: "int64 (upper1 L - (upper0 L - (upper0 H + 1)))" "int64 (upper0 H + 1)"
    using assms(3) by (simp_all add: int64_def)
  have w: "wrap64 (upper1 L - wrap64 (upper0 L - (upper0 H + 1)))
      = upper1 L - (upper0 L - (upper0 H + 1))"
    using i(1) by (simp add: wrap64_diff_wrap64 wrap64_id)
  show "lower1 (rightFragment L H) = upper1 L - (upper0 L - (upper0 H + 1))"
    using w by (simp add: rightFragment_def lower1_def)
  have wf: "wellFormed (rightFragment L H)"
    using assms(3) b(1) w
    by (simp add: wellFormed_def rightFragment_def interval_size_def isValid_def)
  moreover have "int64Block (rightFragment L H)"
    using b i w
    by (simp add: int64Block_def rightFragment_def lower0_def upper0_def lower1_def upper1_def)
  ultimately show "goodBlock (rightFragment L H)" by (simp add: goodBlock_def)
  from wf show "splitAssertions (rightFragment L H)"
    by (simp add: wellFormed_def splitAssertions_def)
qed

lemma fragments_good:
  assumes "blocksIntersect L H" and "goodBlock L"
  shows "\<forall>f \<in> set (fragments L H). goodBlock f \<and> splitAssertions f"
  using leftFragment_good(2,3)[OF assms] rightFragment_good(2,3)[OF assms]
  by (auto simp: fragments_def split: if_splits)

lemma higher_lower_cases:
  "(higherBlock A B = A \<and> lowerBlock A B = B) \<or> (higherBlock A B = B \<and> lowerBlock A B = A)"
  by (simp add: higherBlock_def lowerBlock_def)

lemma blocksIntersect_sym: "blocksIntersect a b \<longleftrightarrow> blocksIntersect b a"
  by (auto simp: blocksIntersect_def isIntersecting_def)

lemma lower_intersects_higher:
  "blocksIntersect A B \<Longrightarrow> blocksIntersect (lowerBlock A B) (higherBlock A B)"
  using higher_lower_cases[of A B] blocksIntersect_sym[of A B] by auto

text \<open>
  Without the invariant the machine does overflow: on these two intersecting blocks, whose
  lower block has index-0 size 11 and index-1 size 4, the new index-1 bound wraps around
  and the assertion after the left split fails.
\<close>

lemma resolveOverlap_overflow_aborts:
  "resolveOverlap (exampleBlock 0 10 (2 ^ 63 - 4) (2 ^ 63 - 1) 5) (exampleBlock 6 8 50 52 8)
     = Inl SplitInvariantViolated"
proof -
  let ?L = "exampleBlock 0 10 (2 ^ 63 - 4) (2 ^ 63 - 1) 5" and ?H = "exampleBlock 6 8 50 52 8"
  have hl: "higherBlock ?L ?H = ?H" "lowerBlock ?L ?H = ?L"
    by (simp_all add: higherBlock_def lowerBlock_def exampleBlock_def)
  have "wrap64 (2 ^ 63 - 4 + wrap64 (6 - 1 - 0)) = - (2 ^ 63) + 1"
    by (simp add: wrap64_def)
  then have "\<not> splitAssertions (leftFragment ?L ?H)"
    by (simp add: splitAssertions_def leftFragment_def isValid_def exampleBlock_def
        lower0_def upper0_def lower1_def upper1_def)
  then have n: "\<not> (\<forall>f \<in> set (fragments ?L ?H). splitAssertions f)"
    by (simp add: fragments_def exampleBlock_def lower0_def upper0_def)
  have d: "overlapLen ?L \<noteq> overlapLen ?H"
    by (simp add: exampleBlock_def)
  have "resolveOverlap ?L ?H =
      (if \<forall>f \<in> set (fragments ?L ?H). splitAssertions f
       then Inr (sortBlocks (?H # fragments ?L ?H)) else Inl SplitInvariantViolated)"
    using resolveOverlap_distinct[OF d] by (simp only: hl)
  also have "\<dots> = Inl SplitInvariantViolated"
    using n by (rule if_not_P)
  finally show ?thesis .
qed

text \<open>
  C5. When \<open>A\<close> and \<open>B\<close> have the same overlap length, \<open>resolveOverlap A B\<close> returns the
  one-element list \<open>[A]\<close>, with \<open>A\<close> unchanged, if their index-0 ranges have the same lower
  and the same upper bound; if the ranges differ it does not return a list but fails
  (the \<^verbatim>\<open>assert(false)\<close> of the source).
\<close>

theorem resolveOverlap_same_length:
  "overlapLen A = overlapLen B \<Longrightarrow>
     (lower0 A = lower0 B \<and> upper0 A = upper0 B \<longrightarrow> resolveOverlap A B = Inr [A]) \<and>
     (\<not> (lower0 A = lower0 B \<and> upper0 A = upper0 B) \<longrightarrow>
        resolveOverlap A B = Inl SameLengthDifferentCoords)"
  by (simp add: resolveOverlap_def)

theorem resolveOverlap_same_length_witness:
  "resolveOverlap (exampleBlock 0 2 37 39 20) (exampleBlock 0 2 50 52 20)
     = Inr [exampleBlock 0 2 37 39 20] \<and>
   resolveOverlap (exampleBlock 0 2 37 39 20) (exampleBlock 1 3 50 52 20)
     = Inl SameLengthDifferentCoords"
  using resolveOverlap_same_length[of "exampleBlock 0 2 37 39 20" "exampleBlock 0 2 50 52 20"]
    resolveOverlap_same_length[of "exampleBlock 0 2 37 39 20" "exampleBlock 1 3 50 52 20"]
  by (simp add: exampleBlock_def lower0_def upper0_def)

text \<open>
  C4. When \<open>A\<close> and \<open>B\<close> intersect and have distinct overlap lengths, their coordinates are
  \<^verbatim>\<open>int64_t\<close> values and the block with the smaller overlap length satisfies the data model's
  invariant (valid intervals of equal size), \<open>resolveOverlap A B\<close> passes every assertion:
  it returns the sorted list of the higher block and the fragments of the lower block. The
  left fragment, emitted when the lower block starts before the higher one, and the right
  fragment, emitted when it ends after it, each have index-0 and index-1 intervals of the
  same size, both valid, with coordinates in the machine range; the index-1 interval keeps
  the lower block's lower bound (left fragment) or upper bound (right fragment) and has the
  width of the fragment's index-0 interval, with no overflow.
\<close>

theorem resolveOverlap_fragments_valid:
  assumes "overlapLen A \<noteq> overlapLen B" and "blocksIntersect A B"
    and "goodBlock (lowerBlock A B)" and "int64Block (higherBlock A B)"
  shows "resolveOverlap A B =
           Inr (sortBlocks (higherBlock A B # fragments (lowerBlock A B) (higherBlock A B)))
         \<and> (\<forall>f \<in> set (fragments (lowerBlock A B) (higherBlock A B)).
               interval_size (interval0 (ranges f)) = interval_size (interval1 (ranges f))
               \<and> isValid (interval0 (ranges f)) \<and> isValid (interval1 (ranges f))
               \<and> upper1 f - lower1 f = upper0 f - lower0 f
               \<and> int64Block f)
         \<and> (lower0 (lowerBlock A B) < lower0 (higherBlock A B) \<longrightarrow>
              lower1 (leftFragment (lowerBlock A B) (higherBlock A B)) = lower1 (lowerBlock A B)
              \<and> upper1 (leftFragment (lowerBlock A B) (higherBlock A B))
                  = lower1 (lowerBlock A B)
                    + (lower0 (higherBlock A B) - 1 - lower0 (lowerBlock A B)))
         \<and> (upper0 (lowerBlock A B) > upper0 (higherBlock A B) \<longrightarrow>
              upper1 (rightFragment (lowerBlock A B) (higherBlock A B)) = upper1 (lowerBlock A B)
              \<and> lower1 (rightFragment (lowerBlock A B) (higherBlock A B))
                  = upper1 (lowerBlock A B)
                    - (upper0 (lowerBlock A B) - (upper0 (higherBlock A B) + 1)))"
proof -
  let ?H = "higherBlock A B" and ?L = "lowerBlock A B"
  have i: "blocksIntersect ?L ?H"
    using assms(2) by (rule lower_intersects_higher)
  note g = fragments_good[OF i assms(3)]
  have "resolveOverlap A B = Inr (sortBlocks (?H # fragments ?L ?H))"
    using resolveOverlap_distinct[OF assms(1)] g by simp
  moreover have "\<forall>f \<in> set (fragments ?L ?H).
      interval_size (interval0 (ranges f)) = interval_size (interval1 (ranges f))
      \<and> isValid (interval0 (ranges f)) \<and> isValid (interval1 (ranges f))
      \<and> upper1 f - lower1 f = upper0 f - lower0 f
      \<and> int64Block f"
  proof
    fix f assume "f \<in> set (fragments ?L ?H)"
    with g have "wellFormed f" "int64Block f" by (simp_all add: goodBlock_def)
    then show "interval_size (interval0 (ranges f)) = interval_size (interval1 (ranges f))
      \<and> isValid (interval0 (ranges f)) \<and> isValid (interval1 (ranges f))
      \<and> upper1 f - lower1 f = upper0 f - lower0 f
      \<and> int64Block f"
      by (auto simp: wellFormed_def interval_size_def isValid_def lower0_def upper0_def
          lower1_def upper1_def split: if_splits)
  qed
  moreover have "lower1 (leftFragment ?L ?H) = lower1 ?L"
    by (simp add: leftFragment_def lower1_def)
  moreover have "upper1 (rightFragment ?L ?H) = upper1 ?L"
    by (simp add: rightFragment_def upper1_def)
  ultimately show ?thesis
    using leftFragment_good(1)[OF i assms(3)] rightFragment_good(1)[OF i assms(3)] by simp
qed

theorem resolveOverlap_fragments_valid_witness:
  "resolveOverlap (exampleBlock 0 10 30 40 5) (exampleBlock 3 12 50 59 8)
     = Inr [exampleBlock 0 2 30 32 5, exampleBlock 3 12 50 59 8] \<and>
   resolveOverlap (exampleBlock 3 12 50 59 5) (exampleBlock 0 10 30 40 8)
     = Inr [exampleBlock 0 10 30 40 8, exampleBlock 11 12 58 59 5]"
proof -
  have w: "wrap64 2 = 2" "wrap64 32 = 32" "wrap64 1 = 1" "wrap64 58 = 58"
    by (simp_all add: wrap64_def)
  have 1: "resolveOverlap (exampleBlock 0 10 30 40 5) (exampleBlock 3 12 50 59 8)
     = Inr [exampleBlock 0 2 30 32 5, exampleBlock 3 12 50 59 8]"
    using resolveOverlap_fragments_valid[of "exampleBlock 0 10 30 40 5" "exampleBlock 3 12 50 59 8"]
    by (simp add: exampleBlock_def higherBlock_def lowerBlock_def fragments_def leftFragment_def
        rightFragment_def coord_defs sortBlocks_def sortIntervalLeft_def blocksIntersect_def
        isIntersecting_def goodBlock_def wellFormed_def int64Block_def int64_def
        interval_size_def isValid_def w)
  have 2: "resolveOverlap (exampleBlock 3 12 50 59 5) (exampleBlock 0 10 30 40 8)
     = Inr [exampleBlock 0 10 30 40 8, exampleBlock 11 12 58 59 5]"
    using resolveOverlap_fragments_valid[of "exampleBlock 3 12 50 59 5" "exampleBlock 0 10 30 40 8"]
    by (simp add: exampleBlock_def higherBlock_def lowerBlock_def fragments_def leftFragment_def
        rightFragment_def coord_defs sortBlocks_def sortIntervalLeft_def blocksIntersect_def
        isIntersecting_def goodBlock_def wellFormed_def int64Block_def int64_def
        interval_size_def isValid_def w)
  from 1 2 show ?thesis by simp
qed

text \<open>
  C1. When \<open>A\<close> and \<open>B\<close> have distinct overlap lengths, the index-0 range of the block with
  the smaller overlap length starts before and ends after that of the block with the
  larger one, and both blocks satisfy the data model's invariant (valid intervals of equal
  size) with \<^verbatim>\<open>int64_t\<close> coordinates, \<open>resolveOverlap A B\<close> returns exactly three blocks: the
  left fragment of the lower block, the higher block unmodified, and the right fragment of
  the lower block. Their index-0 ranges are pairwise disjoint, and each has index-0 and
  index-1 intervals of the same size.
\<close>

theorem resolveOverlap_three_blocks:
  assumes "overlapLen A \<noteq> overlapLen B"
    and "lower0 (lowerBlock A B) < lower0 (higherBlock A B)"
    and "upper0 (lowerBlock A B) > upper0 (higherBlock A B)"
    and "goodBlock (lowerBlock A B)" and "goodBlock (higherBlock A B)"
  shows "resolveOverlap A B =
           Inr [leftFragment (lowerBlock A B) (higherBlock A B), higherBlock A B,
                rightFragment (lowerBlock A B) (higherBlock A B)]
         \<and> range0 (leftFragment (lowerBlock A B) (higherBlock A B)) \<inter> range0 (higherBlock A B) = {}
         \<and> range0 (higherBlock A B) \<inter> range0 (rightFragment (lowerBlock A B) (higherBlock A B)) = {}
         \<and> range0 (leftFragment (lowerBlock A B) (higherBlock A B))
             \<inter> range0 (rightFragment (lowerBlock A B) (higherBlock A B)) = {}
         \<and> interval_size (interval0 (ranges (leftFragment (lowerBlock A B) (higherBlock A B))))
             = interval_size (interval1 (ranges (leftFragment (lowerBlock A B) (higherBlock A B))))
         \<and> interval_size (interval0 (ranges (higherBlock A B)))
             = interval_size (interval1 (ranges (higherBlock A B)))
         \<and> interval_size (interval0 (ranges (rightFragment (lowerBlock A B) (higherBlock A B))))
             = interval_size (interval1 (ranges (rightFragment (lowerBlock A B) (higherBlock A B))))"
proof -
  let ?H = "higherBlock A B" and ?L = "lowerBlock A B"
  have v: "lower0 ?H \<le> upper0 ?H"
    using assms(5) by (simp add: goodBlock_def wellFormed_def isValid_def lower0_def upper0_def)
  have i: "blocksIntersect ?L ?H"
    using assms(2,3) v by (simp add: blocksIntersect_def isIntersecting_def)
  note gl = leftFragment_good(2,3)[OF i assms(4) assms(2)]
  note gr = rightFragment_good(2,3)[OF i assms(4) assms(3)]
  have f: "fragments ?L ?H = [leftFragment ?L ?H, rightFragment ?L ?H]"
    using assms(2,3) by (simp add: fragments_def)
  have c: "lower0 (leftFragment ?L ?H) = lower0 ?L" "upper0 (leftFragment ?L ?H) = lower0 ?H - 1"
    "lower0 (rightFragment ?L ?H) = upper0 ?H + 1" "upper0 (rightFragment ?L ?H) = upper0 ?L"
    by (simp_all add: leftFragment_def rightFragment_def lower0_def upper0_def)
  have "sortBlocks [?H, leftFragment ?L ?H, rightFragment ?L ?H]
      = [leftFragment ?L ?H, ?H, rightFragment ?L ?H]"
    using assms(2,3) v by (simp add: sortBlocks_def sortIntervalLeft_def c)
  then have r: "resolveOverlap A B = Inr [leftFragment ?L ?H, ?H, rightFragment ?L ?H]"
    using resolveOverlap_distinct[OF assms(1)] gl gr by (simp add: f)
  have d: "range0 (leftFragment ?L ?H) \<inter> range0 ?H = {}"
    "range0 ?H \<inter> range0 (rightFragment ?L ?H) = {}"
    "range0 (leftFragment ?L ?H) \<inter> range0 (rightFragment ?L ?H) = {}"
    using v by (auto simp: range0_def c)
  have s: "interval_size (interval0 (ranges (leftFragment ?L ?H)))
             = interval_size (interval1 (ranges (leftFragment ?L ?H)))"
    "interval_size (interval0 (ranges ?H)) = interval_size (interval1 (ranges ?H))"
    "interval_size (interval0 (ranges (rightFragment ?L ?H)))
             = interval_size (interval1 (ranges (rightFragment ?L ?H)))"
    using gl(1) gr(1) assms(5) by (simp_all add: goodBlock_def wellFormed_def)
  from r d s show ?thesis by simp
qed

theorem resolveOverlap_three_blocks_witness:
  "resolveOverlap (exampleBlock 0 10 30 40 5) (exampleBlock 3 6 50 53 8)
     = Inr [exampleBlock 0 2 30 32 5, exampleBlock 3 6 50 53 8, exampleBlock 7 10 37 40 5]"
proof -
  have w: "wrap64 2 = 2" "wrap64 32 = 32" "wrap64 3 = 3" "wrap64 37 = 37"
    by (simp_all add: wrap64_def)
  show ?thesis
    using resolveOverlap_three_blocks[of "exampleBlock 0 10 30 40 5" "exampleBlock 3 6 50 53 8"]
    by (simp add: exampleBlock_def higherBlock_def lowerBlock_def leftFragment_def
        rightFragment_def coord_defs goodBlock_def wellFormed_def int64Block_def int64_def
        interval_size_def isValid_def w)
qed

section \<open>Properties of partitionBlockList\<close>

lemma partitionLoop_eq:
  "partitionLoop readLen xs ov co =
     ([], ov @ filter (\<lambda>b. overlapLen b \<noteq> readLen) xs,
          co @ filter (\<lambda>b. overlapLen b = readLen) xs)"
  by (induction xs arbitrary: ov co) simp_all

text \<open>
  C6. For every read length, input list and pair of output lists, \<open>partitionBlockList\<close>
  leaves the input list empty, appends to the containment list the blocks whose
  \<open>overlapLen\<close> equals the read length and to the overlap list all the others, each in the
  order of the input. No block is duplicated or dropped: the two output lists grow by the
  blocks of the input list, as multisets and in number; with empty output lists at the
  start, their lengths add up to the length of the input list.
\<close>

theorem partitionBlockList_total_split:
  "partitionBlockList readLen xs ov co =
     ([], ov @ filter (\<lambda>b. overlapLen b \<noteq> readLen) xs,
          co @ filter (\<lambda>b. overlapLen b = readLen) xs)
   \<and> mset (fst (snd (partitionBlockList readLen xs ov co)))
       + mset (snd (snd (partitionBlockList readLen xs ov co)))
       = mset ov + mset co + mset xs
   \<and> length (fst (snd (partitionBlockList readLen xs [] [])))
       + length (snd (snd (partitionBlockList readLen xs [] []))) = length xs"
proof -
  have e: "\<And>ov co. partitionBlockList readLen xs ov co =
     ([], ov @ filter (\<lambda>b. overlapLen b \<noteq> readLen) xs,
          co @ filter (\<lambda>b. overlapLen b = readLen) xs)"
    by (simp add: partitionBlockList_def partitionLoop_eq)
  have m: "mset (filter (\<lambda>b. overlapLen b \<noteq> readLen) xs)
      + mset (filter (\<lambda>b. overlapLen b = readLen) xs) = mset xs"
    by (induction xs) simp_all
  have l: "length (filter (\<lambda>b. overlapLen b \<noteq> readLen) xs)
      + length (filter (\<lambda>b. overlapLen b = readLen) xs) = length xs"
    by (induction xs) simp_all
  show ?thesis
    using m l by (simp add: e ac_simps)
qed

theorem partitionBlockList_total_split_witness:
  "partitionBlockList 50 [exampleBlock 0 0 5 5 20, exampleBlock 1 1 7 7 50,
                          exampleBlock 2 2 9 9 30] [] [] =
     ([], [exampleBlock 0 0 5 5 20, exampleBlock 2 2 9 9 30], [exampleBlock 1 1 7 7 50])"
  using partitionBlockList_total_split[of 50 "[exampleBlock 0 0 5 5 20, exampleBlock 1 1 7 7 50,
                          exampleBlock 2 2 9 9 30]" "[]" "[]"]
  by (simp add: exampleBlock_def)

section \<open>Properties of toOverlap\<close>

text \<open>
  C7. For an overlap length between 1 and the smaller of the query and target lengths,
  \<open>toOverlap\<close> gives the query the coordinate from \<open>queryLen - overlapLen\<close> to
  \<open>queryLen - 1\<close> (a suffix) and the target the coordinate from 0 to \<open>overlapLen - 1\<close> (a
  prefix), flipped exactly when the query-reversed, respectively target-reversed, flag is
  set; the reverse-complement field is what \<open>isReverseComplement\<close> gives for the flags,
  and the ids and the number of differences are copied. Both coordinates satisfy
  \<open>0 \<le> start \<le> end < totalLength\<close>.
\<close>

theorem toOverlap_coordinates:
  assumes "0 < overlapLen blk" and "overlapLen blk \<le> min queryLen targetLen"
  shows "queryCoord (toOverlap rc blk qid tid queryLen targetLen) =
           (if isQueryRev (flags blk)
            then flip \<lparr>sc_start = queryLen - overlapLen blk, sc_end = queryLen - 1, seqlen = queryLen\<rparr>
            else \<lparr>sc_start = queryLen - overlapLen blk, sc_end = queryLen - 1, seqlen = queryLen\<rparr>)
         \<and> targetCoord (toOverlap rc blk qid tid queryLen targetLen) =
           (if isTargetRev (flags blk)
            then flip \<lparr>sc_start = 0, sc_end = overlapLen blk - 1, seqlen = targetLen\<rparr>
            else \<lparr>sc_start = 0, sc_end = overlapLen blk - 1, seqlen = targetLen\<rparr>)
         \<and> isRC (toOverlap rc blk qid tid queryLen targetLen) = rc (flags blk)
         \<and> queryId (toOverlap rc blk qid tid queryLen targetLen) = qid
         \<and> targetId (toOverlap rc blk qid tid queryLen targetLen) = tid
         \<and> numDifferences (toOverlap rc blk qid tid queryLen targetLen) = numDiff blk
         \<and> validCoord (queryCoord (toOverlap rc blk qid tid queryLen targetLen))
         \<and> validCoord (targetCoord (toOverlap rc blk qid tid queryLen targetLen))"
  using assms by (simp add: toOverlap_def Let_def flip_def validCoord_def)

theorem toOverlap_coordinates_witness:
  "queryCoord (toOverlap (\<lambda>f. isQueryRev f \<noteq> isTargetRev f) (exampleBlock 4 4 9 9 20)
       ''R'' ''S'' 50 35) = \<lparr>sc_start = 30, sc_end = 49, seqlen = 50\<rparr>
   \<and> targetCoord (toOverlap (\<lambda>f. isQueryRev f \<noteq> isTargetRev f) (exampleBlock 4 4 9 9 20)
       ''R'' ''S'' 50 35) = \<lparr>sc_start = 0, sc_end = 19, seqlen = 35\<rparr>
   \<and> isRC (toOverlap (\<lambda>f. isQueryRev f \<noteq> isTargetRev f) (exampleBlock 4 4 9 9 20)
       ''R'' ''S'' 50 35) = False"
  using toOverlap_coordinates[of "exampleBlock 4 4 9 9 20" 50 35
      "\<lambda>f. isQueryRev f \<noteq> isTargetRev f" "''R''" "''S''"]
  by (simp add: exampleBlock_def)

section \<open>Properties of the multi-overlap builder\<close>

lemma addMembers_eq:
  "addMembers read_idx sc1 sc2 s i up out =
     out\<lparr>overlaps := overlaps out @
        map (\<lambda>j. (s, \<lparr>queryId = read_idx, queryCoord = sc1, targetId = makeIdxString j,
                       targetCoord = sc2, isRC = False, numDifferences = - 1\<rparr>)) [i .. up]\<rparr>"
proof (induction read_idx sc1 sc2 s i up out rule: addMembers.induct)
  case (1 read_idx sc1 sc2 s i up out)
  show ?case
  proof (cases "i \<le> up")
    case True
    then have "[i .. up] = i # [i + 1 .. up]"
      by (simp add: upto_rec1)
    with True "1" show ?thesis
      by (subst addMembers.simps) (simp add: mo_add_def)
  next
    case False
    then show ?thesis
      by (subst addMembers.simps) simp
  qed
qed

lemma multiOverlapLoop_Inr:
  assumes "\<forall>b \<in> set bl. \<exists>s. getOverlapString tr b read_seq = Inr s"
  shows "multiOverlapLoop tr read_idx read_seq bl out =
           Inr (out\<lparr>overlaps := overlaps out @ concat (map (entriesOf tr read_idx read_seq) bl)\<rparr>)"
  using assms
proof (induction bl arbitrary: out)
  case Nil
  then show ?case by simp
next
  case (Cons b bl)
  then obtain s where s: "getOverlapString tr b read_seq = Inr s" by auto
  from Cons have ih: "\<And>out. multiOverlapLoop tr read_idx read_seq bl out =
           Inr (out\<lparr>overlaps := overlaps out @ concat (map (entriesOf tr read_idx read_seq) bl)\<rparr>)"
    by simp
  have e: "entriesOf tr read_idx read_seq b = blockEntries read_idx read_seq s b"
    by (simp add: entriesOf_def s)
  show ?case
    by (simp add: s ih Let_def e blockEntries_def blockCoords_def addMembers_eq)
qed

lemma multiOverlapLoop_Inl:
  assumes "\<exists>b \<in> set bl. getOverlapString tr b read_seq = Inl e"
    and "\<forall>b \<in> set bl. \<forall>e'. getOverlapString tr b read_seq = Inl e' \<longrightarrow> e' = e"
  shows "multiOverlapLoop tr read_idx read_seq bl out = Inl e"
  using assms
proof (induction bl arbitrary: out)
  case Nil
  then show ?case by simp
next
  case (Cons b bl)
  show ?case
  proof (cases "getOverlapString tr b read_seq")
    case (Inl e')
    with Cons.prems(2) have "e' = e" by simp
    with Inl show ?thesis by simp
  next
    case (Inr s)
    with Cons.prems have "\<exists>b \<in> set bl. getOverlapString tr b read_seq = Inl e"
      "\<forall>b \<in> set bl. \<forall>e'. getOverlapString tr b read_seq = Inl e' \<longrightarrow> e' = e"
      by auto
    then have "\<And>out. multiOverlapLoop tr read_idx read_seq bl out = Inl e"
      by (rule Cons.IH)
    then show ?thesis by (simp add: Inr Let_def)
  qed
qed

lemma getOverlapString_error:
  "getOverlapString tr b s = Inl e \<Longrightarrow> e = SubstrOutOfRange"
  by (auto simp: getOverlapString_def Let_def split: if_splits)




section \<open>Properties of ErrorCorrectProcess::process\<close>

text \<open>
  C10. Whatever the overlapper, the consensus and the work item are: every result that
  \<open>process\<close> returns carries the flag \<open>ECF_CORRECTED\<close>, never \<open>ECF_NOT_CORRECTED\<close>, and
  leaves the member block list empty; and \<open>process\<close> does return a result whenever the
  overlap string of every block the overlapper delivered can be taken. The only other
  outcome is the exception of \<^verbatim>\<open>substr\<close>, which returns no result.
\<close>

theorem process_flag_corrected:
  "(\<forall>result bl'. process overlapRead consensus tr minOverlap bl workItem = Inr (result, bl') \<longrightarrow>
       flag result = ECF_CORRECTED \<and> flag result \<noteq> ECF_NOT_CORRECTED \<and> bl' = [])
   \<and> ((\<forall>b \<in> set (snd (overlapRead (read workItem) minOverlap bl)).
          \<exists>s. getOverlapString tr b (seq (read workItem)) = Inr s) \<longrightarrow>
       (\<exists>result. process overlapRead consensus tr minOverlap bl workItem = Inr (result, [])
          \<and> flag result = ECF_CORRECTED))
   \<and> (\<forall>e. process overlapRead consensus tr minOverlap bl workItem = Inl e \<longrightarrow>
          e = SubstrOutOfRange)"
proof -
  obtain r bl1 where o: "overlapRead (read workItem) minOverlap bl = (r, bl1)"
    by (cases "overlapRead (read workItem) minOverlap bl")
  have p: "process overlapRead consensus tr minOverlap bl workItem =
      (case ECP_blockListToMultiOverlap tr workItem bl1 of
         Inl e \<Rightarrow> Inl e
       | Inr mo \<Rightarrow> Inr (\<lparr>correctSequence = consensus mo (1 / 100), flag = ECF_CORRECTED\<rparr>, []))"
    by (cases "ECP_blockListToMultiOverlap tr workItem bl1") (simp_all add: process_def o Let_def)
  have a: "\<forall>result bl'. process overlapRead consensus tr minOverlap bl workItem = Inr (result, bl') \<longrightarrow>
       flag result = ECF_CORRECTED \<and> flag result \<noteq> ECF_NOT_CORRECTED \<and> bl' = []"
    unfolding p by (auto split: sum.splits)
  have b: "(\<forall>b \<in> set bl1. \<exists>s. getOverlapString tr b (seq (read workItem)) = Inr s) \<longrightarrow>
       (\<exists>result. process overlapRead consensus tr minOverlap bl workItem = Inr (result, [])
          \<and> flag result = ECF_CORRECTED)"
    unfolding p by (simp add: ECP_blockListToMultiOverlap_def Let_def multiOverlapLoop_Inr)
  have c: "\<forall>e. process overlapRead consensus tr minOverlap bl workItem = Inl e \<longrightarrow>
          e = SubstrOutOfRange"
  proof (intro allI impI)
    fix e assume "process overlapRead consensus tr minOverlap bl workItem = Inl e"
    then have l: "multiOverlapLoop tr (makeIdxString (- 1)) (seq (read workItem)) bl1
        \<lparr>rootID = makeIdxString (- 1), rootSeq = seq (read workItem), overlaps = []\<rparr> = Inl e"
      unfolding p by (auto simp: ECP_blockListToMultiOverlap_def Let_def split: sum.splits)
    show "e = SubstrOutOfRange"
    proof (cases "\<forall>b \<in> set bl1. \<exists>s. getOverlapString tr b (seq (read workItem)) = Inr s")
      case True
      then show ?thesis using l by (simp add: multiOverlapLoop_Inr)
    next
      case False
      then obtain b e' where "b \<in> set bl1" "getOverlapString tr b (seq (read workItem)) = Inl e'"
        by (metis sum.exhaust)
      then have "\<exists>b \<in> set bl1. getOverlapString tr b (seq (read workItem)) = Inl SubstrOutOfRange"
        using getOverlapString_error by blast
      then have "multiOverlapLoop tr (makeIdxString (- 1)) (seq (read workItem)) bl1
        \<lparr>rootID = makeIdxString (- 1), rootSeq = seq (read workItem), overlaps = []\<rparr>
          = Inl SubstrOutOfRange"
        using getOverlapString_error by (intro multiOverlapLoop_Inl) auto
      with l show ?thesis by simp
    qed
  qed
  from a b c show ?thesis by (simp add: o)
qed

theorem process_flag_corrected_witness:
  "process (\<lambda>rd m l. ((), l @ [exampleBlock 3 4 10 11 5])) (\<lambda>mo p. rootSeq mo) (\<lambda>h s r. s) 5 []
     \<lparr>idx = 0, read = \<lparr>id_str = ''r'', seq = ''ACGTACGT''\<rparr>\<rparr>
   = Inr (\<lparr>correctSequence = ''ACGTACGT'', flag = ECF_CORRECTED\<rparr>, [])"
proof -
  have g: "getOverlapString (\<lambda>h s r. s) (exampleBlock 3 4 10 11 5) ''ACGTACGT'' = Inr ''TACGT''"
    by (simp add: getOverlapString_def exampleBlock_def)
  obtain result where r: "process (\<lambda>rd m l. ((), l @ [exampleBlock 3 4 10 11 5]))
      (\<lambda>mo p. rootSeq mo) (\<lambda>h s r. s) 5 [] \<lparr>idx = 0, read = \<lparr>id_str = ''r'', seq = ''ACGTACGT''\<rparr>\<rparr>
      = Inr (result, [])" and f: "flag result = ECF_CORRECTED"
    using process_flag_corrected[of "\<lambda>rd m l. ((), l @ [exampleBlock 3 4 10 11 5])"
        "\<lambda>mo p. rootSeq mo" "\<lambda>h s r. s" 5 "[]"
        "\<lparr>idx = 0, read = \<lparr>id_str = ''r'', seq = ''ACGTACGT''\<rparr>\<rparr>"] g
    by auto
  have "ECP_blockListToMultiOverlap (\<lambda>h s r. s)
      \<lparr>idx = 0, read = \<lparr>id_str = ''r'', seq = ''ACGTACGT''\<rparr>\<rparr> [exampleBlock 3 4 10 11 5] =
      Inr \<lparr>rootID = makeIdxString (- 1), rootSeq = ''ACGTACGT'',
           overlaps = concat (map (entriesOf (\<lambda>h s r. s) (makeIdxString (- 1)) ''ACGTACGT'')
             [exampleBlock 3 4 10 11 5])\<rparr>"
    unfolding ECP_blockListToMultiOverlap_def Let_def
    by (subst multiOverlapLoop_Inr) (simp_all add: g)
  then have "correctSequence result = ''ACGTACGT''"
    using r by (auto simp: process_def Let_def)
  with r f show ?thesis
    by (cases result) simp
qed

section \<open>Properties of Pileup::calculateSimpleAlphaProb\<close>

lemma accumulatePosterior_eq:
  assumes "elemAt m_data 1 = Inr e1"
  shows "accumulatePosterior ops b m_data es p =
           Inr (foldl (\<lambda>posterior e.
                         d_add ops posterior
                           (if base e = b
                            then d_log ops (d_sub ops (d_one ops) (d_exp ops (lp e1)))
                            else lp e1)) p es)"
  using assms by (induction es arbitrary: p) simp_all

lemma accumulatePosterior_out_of_bounds:
  assumes "elemAt m_data 1 = Inl err" and "es \<noteq> []"
  shows "accumulatePosterior ops b m_data es p = Inl err"
  using assms by (cases es) simp_all

lemma posteriorLoop_eq:
  assumes "elemAt m_data 1 = Inr e1"
  shows "posteriorLoop ops bs m_data ap =
           Inr (\<lambda>c. if c \<in> set bs then uniform_posterior ops (lp e1) c m_data else ap c)"
  using assms
proof (induction bs arbitrary: ap)
  case Nil
  then show ?case by simp
next
  case (Cons b bs)
  show ?case
    by (simp add: accumulatePosterior_eq[OF Cons.prems] Cons.IH[OF Cons.prems] fun_eq_iff
        uniform_posterior_def)
qed

lemma marginalLoop_eq:
  "marginalLoop ops bs ap m = foldl (\<lambda>marginal c. d_add ops marginal (d_exp ops (ap c))) m bs"
  by (induction bs arbitrary: m) simp_all

lemma scaleLoop_eq:
  "distinct bs \<Longrightarrow>
   scaleLoop ops bs marginal ap = (\<lambda>c. if c \<in> set bs then d_sub ops (ap c) marginal else ap c)"
proof (induction bs arbitrary: ap)
  case Nil
  then show ?case by simp
next
  case (Cons b bs)
  then show ?case by (auto simp: fun_eq_iff)
qed

lemma calculateSimpleAlphaProb_uniform:
  assumes "2 \<le> length m_data" and "\<forall>e \<in> set m_data. lp e = l" and "distinct alphabet"
  shows "calculateSimpleAlphaProb ops alphabet m_data =
           Inr (\<lambda>b. if b \<in> set alphabet
                     then d_sub ops (uniform_posterior ops l b m_data)
                            (uniform_marginal ops l alphabet m_data)
                     else d_zero ops)"
proof -
  from assms(1) have ne: "m_data \<noteq> []" by auto
  from assms(1) have e1: "elemAt m_data 1 = Inr (m_data ! 1)"
    by (simp add: elemAt_def)
  from assms(1,2) have l: "lp (m_data ! 1) = l" by simp
  let ?S = "\<lambda>c. uniform_posterior ops l c m_data"
  have p: "posteriorLoop ops alphabet m_data (\<lambda>c. d_zero ops)
      = Inr (\<lambda>c. if c \<in> set alphabet then ?S c else d_zero ops)"
    unfolding posteriorLoop_eq[OF e1] l ..
  have m: "foldl (\<lambda>marginal c. d_add ops marginal
                (d_exp ops (if c \<in> set alphabet then ?S c else d_zero ops))) (d_zero ops) alphabet
      = foldl (\<lambda>marginal c. d_add ops marginal (d_exp ops (?S c))) (d_zero ops) alphabet"
    by (rule foldl_cong) simp_all
  have "calculateSimpleAlphaProb ops alphabet m_data =
      Inr (scaleLoop ops alphabet (uniform_marginal ops l alphabet m_data)
             (\<lambda>c. if c \<in> set alphabet then ?S c else d_zero ops))"
    using ne by (simp add: calculateSimpleAlphaProb_def p Let_def marginalLoop_eq m
        uniform_marginal_def)
  also have "scaleLoop ops alphabet (uniform_marginal ops l alphabet m_data)
             (\<lambda>c. if c \<in> set alphabet then ?S c else d_zero ops)
      = (\<lambda>b. if b \<in> set alphabet
                then d_sub ops (?S b) (uniform_marginal ops l alphabet m_data)
                else d_zero ops)"
    by (simp add: scaleLoop_eq[OF assms(3)] fun_eq_iff)
  finally show ?thesis .
qed

lemma ln_values_differ:
  "ln (3/4) + ln (1/4) - ln (1/2) \<noteq> ln (3/4) + ln (1/12) - ln (5/36 :: real)"
proof
  assume "ln (3/4) + ln (1/4) - ln (1/2) = ln (3/4) + ln (1/12) - ln (5/36 :: real)"
  then have "exp (ln (3/4) + ln (1/4) - ln (1/2)) = exp (ln (3/4) + ln (1/12) - ln (5/36 :: real))"
    by simp
  then show False by (simp add: exp_add exp_diff)
qed

lemma uniform_A_example:
  "d_sub realArith
     (uniform_posterior realArith (ln (1/4)) (CHR ''A'')
        [\<lparr>base = CHR ''A'', lp = ln (1/4)\<rparr>, \<lparr>base = CHR ''C'', lp = ln (1/4)\<rparr>])
     (uniform_marginal realArith (ln (1/4)) ''ACGT''
        [\<lparr>base = CHR ''A'', lp = ln (1/4)\<rparr>, \<lparr>base = CHR ''C'', lp = ln (1/4)\<rparr>])
   = ln (3/4) + ln (1/4) - ln (1/2)"
  by (simp add: uniform_posterior_def uniform_marginal_def realArith_def exp_add)

lemma posterior_A_example:
  assumes "calculateSimpleAlphaProb realArith ''ACGT''
      [\<lparr>base = CHR ''A'', lp = ln (1/4)\<rparr>, \<lparr>base = CHR ''C'', lp = ln (1/4)\<rparr>] = Inr ap"
  shows "ap (CHR ''A'') = ln (3/4) + ln (1/4) - ln (1/2)"
proof -
  let ?d = "[\<lparr>base = CHR ''A'', lp = ln (1/4 :: real)\<rparr>, \<lparr>base = CHR ''C'', lp = ln (1/4)\<rparr>]"
  have "calculateSimpleAlphaProb realArith ''ACGT'' ?d =
      Inr (\<lambda>b. if b \<in> set ''ACGT''
                then d_sub realArith (uniform_posterior realArith (ln (1/4)) b ?d)
                       (uniform_marginal realArith (ln (1/4)) ''ACGT'' ?d)
                else d_zero realArith)"
    by (rule calculateSimpleAlphaProb_uniform) simp_all
  with assms have "ap (CHR ''A'') = d_sub realArith
      (uniform_posterior realArith (ln (1/4)) (CHR ''A'') ?d)
      (uniform_marginal realArith (ln (1/4)) ''ACGT'' ?d)"
    by auto
  then show ?thesis by (simp only: uniform_A_example)
qed

lemma spec_A_example:
  "spec_alphaProb ''ACGT''
      [\<lparr>base = CHR ''A'', lp = ln (1/4)\<rparr>, \<lparr>base = CHR ''C'', lp = ln (1/4)\<rparr>] (CHR ''A'')
   = ln (3/4) + ln (1/12) - ln (5/36)"
  by (simp add: spec_alphaProb_def spec_posterior_def exp_add)

text \<open>
  The slip of the source, which the properties below leave out: the probability added for
  every observation is the one recorded with the second observation, and with a single
  observation that read is past the end of the vector.
\<close>

lemma accumulatePosterior_reads_second_observation:
  "accumulatePosterior ops b [\<lparr>base = b, lp = l0\<rparr>, \<lparr>base = b, lp = l1\<rparr>]
      [\<lparr>base = b, lp = l0\<rparr>, \<lparr>base = b, lp = l1\<rparr>] (d_zero ops)
   = Inr (d_add ops
            (d_add ops (d_zero ops) (d_log ops (d_sub ops (d_one ops) (d_exp ops l1))))
            (d_log ops (d_sub ops (d_one ops) (d_exp ops l1))))"
  by (simp add: elemAt_def)

lemma calculateSimpleAlphaProb_single_observation:
  "alphabet \<noteq> [] \<Longrightarrow> calculateSimpleAlphaProb ops alphabet [e] = Inl IndexOutOfBounds"
  by (cases alphabet) (simp_all add: calculateSimpleAlphaProb_def elemAt_def)

text \<open>
  C3, as amended. For a pileup of at least two observations that all carry the same
  recorded log error probability \<open>l\<close>, and an alphabet of distinct symbols,
  \<open>calculateSimpleAlphaProb\<close> returns for each base \<open>b\<close> of the alphabet the sum the loop
  builds from 0 over all observations, in their order, of \<^verbatim>\<open>log(1 - exp(l))\<close> where the
  observation is \<open>b\<close> and of \<open>l\<close> itself where it is not (the error probability is not split
  across the remaining symbols), minus the log of the sum, built from 0 in the order of the
  alphabet, of the exponentials of these sums. This holds for every arithmetic, that of the
  doubles with its rounding, infinities and NaN included.
\<close>

theorem calculateSimpleAlphaProb_uniform_posterior:
  assumes "2 \<le> length m_data" and "\<forall>e \<in> set m_data. lp e = l" and "distinct alphabet"
  shows "\<exists>ap. calculateSimpleAlphaProb ops alphabet m_data = Inr ap
           \<and> (\<forall>b \<in> set alphabet.
                 ap b = d_sub ops (uniform_posterior ops l b m_data)
                          (uniform_marginal ops l alphabet m_data))"
  using calculateSimpleAlphaProb_uniform[OF assms] by simp

theorem calculateSimpleAlphaProb_uniform_posterior_witness:
  "\<exists>ap. calculateSimpleAlphaProb realArith ''ACGT''
           [\<lparr>base = CHR ''A'', lp = ln (1/4)\<rparr>, \<lparr>base = CHR ''C'', lp = ln (1/4)\<rparr>] = Inr ap
        \<and> ap (CHR ''A'') = ln (3/4) + ln (1/4) - ln (1/2)"
proof -
  let ?d = "[\<lparr>base = CHR ''A'', lp = ln (1/4 :: real)\<rparr>, \<lparr>base = CHR ''C'', lp = ln (1/4)\<rparr>]"
  obtain ap where ap: "calculateSimpleAlphaProb realArith ''ACGT'' ?d = Inr ap"
    and v: "\<forall>b \<in> set ''ACGT''. ap b = d_sub realArith
              (uniform_posterior realArith (ln (1/4)) b ?d)
              (uniform_marginal realArith (ln (1/4)) ''ACGT'' ?d)"
    using calculateSimpleAlphaProb_uniform_posterior[of ?d "ln (1/4)" "''ACGT''" realArith]
    by auto
  from v have "ap (CHR ''A'') = d_sub realArith
      (uniform_posterior realArith (ln (1/4)) (CHR ''A'') ?d)
      (uniform_marginal realArith (ln (1/4)) ''ACGT'' ?d)"
    by simp
  then have "ap (CHR ''A'') = ln (3/4) + ln (1/4) - ln (1/2)"
    by (simp only: uniform_A_example)
  with ap show ?thesis by blast
qed

text \<open>
  The claim as stated fails: on the two observations \<open>A\<close> and \<open>C\<close>, both with error
  probability 1/4, the value returned for \<open>A\<close> is \<open>ln (3/8)\<close> and not the spec's
  log-posterior \<open>ln (9/20)\<close>, in which the error probability of the mismatch is split across
  the three remaining symbols.
\<close>

theorem calculateSimpleAlphaProb_not_split:
  "\<not> (\<exists>ap. calculateSimpleAlphaProb realArith ''ACGT''
              [\<lparr>base = CHR ''A'', lp = ln (1/4)\<rparr>, \<lparr>base = CHR ''C'', lp = ln (1/4)\<rparr>] = Inr ap
           \<and> ap (CHR ''A'') =
               spec_alphaProb ''ACGT''
                 [\<lparr>base = CHR ''A'', lp = ln (1/4)\<rparr>, \<lparr>base = CHR ''C'', lp = ln (1/4)\<rparr>]
                 (CHR ''A''))"
  using posterior_A_example spec_A_example ln_values_differ by metis

section \<open>Properties of removeSubMaximalBlocks\<close>

subsection \<open>The comparator, sorting and merging\<close>

lemma sortIntervalLeft_trans:
  "\<not> sortIntervalLeft b a \<Longrightarrow> \<not> sortIntervalLeft c b \<Longrightarrow> \<not> sortIntervalLeft c a"
  by (auto simp: sortIntervalLeft_def)

lemma sortIntervalLeft_asym: "sortIntervalLeft a b \<Longrightarrow> \<not> sortIntervalLeft b a"
  by (auto simp: sortIntervalLeft_def)

lemma set_insertBlock: "set (insertBlock x ys) = insert x (set ys)"
  by (induction ys) auto

lemma mset_insertBlock: "mset (insertBlock x ys) = add_mset x (mset ys)"
  by (induction ys) simp_all

lemma mset_sortBlocks: "mset (sortBlocks xs) = mset xs"
  by (induction xs) (simp_all add: sortBlocks_def mset_insertBlock)

lemma set_sortBlocks: "set (sortBlocks xs) = set xs"
  by (metis mset_sortBlocks set_mset_mset)

lemma sortedLeft_insertBlock: "sortedLeft ys \<Longrightarrow> sortedLeft (insertBlock x ys)"
proof (induction ys)
  case Nil
  then show ?case by (simp add: sortedLeft_def)
next
  case (Cons y ys)
  then show ?case
    by (auto simp: sortedLeft_def set_insertBlock
        dest: sortIntervalLeft_asym sortIntervalLeft_trans)
qed

lemma sortedLeft_sortBlocks: "sortedLeft (sortBlocks xs)"
proof (induction xs)
  case Nil
  show ?case by (simp add: sortBlocks_def sortedLeft_def)
next
  case (Cons x xs)
  then show ?case
    using sortedLeft_insertBlock[of "sortBlocks xs" x] by (simp add: sortBlocks_def)
qed

lemma mset_mergeBlocks: "mset (mergeBlocks xs ys) = mset xs + mset ys"
  by (induction xs ys rule: mergeBlocks.induct) simp_all

lemma set_mergeBlocks: "set (mergeBlocks xs ys) = set xs \<union> set ys"
  by (metis mset_mergeBlocks set_mset_mset set_mset_union)

lemma sortedLeft_mergeBlocks:
  "sortedLeft xs \<Longrightarrow> sortedLeft ys \<Longrightarrow> sortedLeft (mergeBlocks xs ys)"
proof (induction xs ys rule: mergeBlocks.induct)
  case (1 ys)
  then show ?case by simp
next
  case (2 v va)
  then show ?case by simp
next
  case (3 x xs y ys)
  then show ?case
    by (auto simp: sortedLeft_def set_mergeBlocks
        dest: sortIntervalLeft_asym sortIntervalLeft_trans)
qed

lemma sortedLeft_remove_pair:
  "sortedLeft (pre @ x # y # rest) \<Longrightarrow> sortedLeft (pre @ rest)"
  by (auto simp: sortedLeft_def sorted_wrt_append)

lemma totalSize_mset: "mset xs = mset ys \<Longrightarrow> totalSize xs = totalSize ys"
  unfolding totalSize_def by (metis mset_map sum_mset_sum_list)

lemma totalSize_Nil: "totalSize [] = 0"
  by (simp add: totalSize_def)

lemma totalSize_Cons: "totalSize (x # xs) = blockSize x + totalSize xs"
  by (simp add: totalSize_def)

lemma totalSize_append: "totalSize (xs @ ys) = totalSize xs + totalSize ys"
  by (simp add: totalSize_def)

lemma totalSize_mergeBlocks: "totalSize (mergeBlocks xs ys) = totalSize xs + totalSize ys"
  using totalSize_mset[of "mergeBlocks xs ys" "xs @ ys"]
  by (simp add: mset_mergeBlocks totalSize_append)

lemma totalSize_sortBlocks: "totalSize (sortBlocks xs) = totalSize xs"
  by (rule totalSize_mset) (rule mset_sortBlocks)


subsection \<open>One resolution step\<close>

lemma blocksIntersect_iff:
  "blocksIntersect a b \<longleftrightarrow> range0 a \<inter> range0 b \<noteq> {}"
proof
  assume "blocksIntersect a b"
  then have "max (lower0 a) (lower0 b) \<in> range0 a \<inter> range0 b"
    by (auto simp: blocksIntersect_def isIntersecting_def range0_def)
  then show "range0 a \<inter> range0 b \<noteq> {}" by blast
next
  assume "range0 a \<inter> range0 b \<noteq> {}"
  then show "blocksIntersect a b"
    by (auto simp: blocksIntersect_def isIntersecting_def range0_def)
qed

lemma blockSize_eq: "blockSize b = nat (upper0 b - lower0 b + 1)"
  by (simp add: blockSize_def interval_size_def isValid_def lower0_def upper0_def)

lemma validRange_iff: "isValid (interval0 (ranges b)) \<longleftrightarrow> lower0 b \<le> upper0 b"
  by (simp add: isValid_def lower0_def upper0_def)

lemma fragments_coords:
  "lower0 (leftFragment L H) = lower0 L" "upper0 (leftFragment L H) = lower0 H - 1"
  "lower0 (rightFragment L H) = upper0 H + 1" "upper0 (rightFragment L H) = upper0 L"
  by (simp_all add: leftFragment_def rightFragment_def lower0_def upper0_def)

lemma fragments_smaller:
  assumes "blocksIntersect L H"
  shows "totalSize (fragments L H) < blockSize L"
  using assms
  by (auto simp: fragments_def totalSize_def blockSize_eq fragments_coords
      blocksIntersect_def isIntersecting_def)

lemma fragments_union:
  assumes "blocksIntersect L H"
  shows "range0 H \<union> \<Union> (range0 ` set (fragments L H)) = range0 L \<union> range0 H"
  using assms
  by (auto simp: fragments_def range0_def fragments_coords
      blocksIntersect_def isIntersecting_def)

lemma fragments_valid:
  "\<forall>f \<in> set (fragments L H). isValid (interval0 (ranges f))"
  by (auto simp: fragments_def validRange_iff fragments_coords split: if_splits)

lemma blocksIntersect_valid:
  "blocksIntersect a b \<Longrightarrow> isValid (interval0 (ranges a)) \<and> isValid (interval0 (ranges b))"
  by (auto simp: blocksIntersect_def isIntersecting_def validRange_iff)

lemma resolveOverlap_Inr_distinct:
  assumes "overlapLen x \<noteq> overlapLen y" and "resolveOverlap x y = Inr res"
  shows "res = sortBlocks (higherBlock x y # fragments (lowerBlock x y) (higherBlock x y))"
proof (cases "\<forall>f \<in> set (fragments (lowerBlock x y) (higherBlock x y)). splitAssertions f")
  case True
  note resolveOverlap_distinct[OF assms(1)]
  also have "(if \<forall>f \<in> set (fragments (lowerBlock x y) (higherBlock x y)). splitAssertions f
       then Inr (sortBlocks (higherBlock x y # fragments (lowerBlock x y) (higherBlock x y)))
       else Inl SplitInvariantViolated)
      = Inr (sortBlocks (higherBlock x y # fragments (lowerBlock x y) (higherBlock x y)))"
    using True by (rule if_P)
  finally show ?thesis using assms(2) by simp
next
  case False
  note resolveOverlap_distinct[OF assms(1)]
  also have "(if \<forall>f \<in> set (fragments (lowerBlock x y) (higherBlock x y)). splitAssertions f
       then Inr (sortBlocks (higherBlock x y # fragments (lowerBlock x y) (higherBlock x y)))
       else Inl SplitInvariantViolated)
      = Inl SplitInvariantViolated"
    using False by (rule if_not_P)
  finally show ?thesis using assms(2) by simp
qed

lemma resolveOverlap_Inl_distinct:
  assumes "overlapLen x \<noteq> overlapLen y" and "resolveOverlap x y = Inl e"
  shows "e = SplitInvariantViolated
       \<and> \<not> (\<forall>f \<in> set (fragments (lowerBlock x y) (higherBlock x y)). splitAssertions f)"
proof (cases "\<forall>f \<in> set (fragments (lowerBlock x y) (higherBlock x y)). splitAssertions f")
  case True
  note resolveOverlap_distinct[OF assms(1)]
  also have "(if \<forall>f \<in> set (fragments (lowerBlock x y) (higherBlock x y)). splitAssertions f
       then Inr (sortBlocks (higherBlock x y # fragments (lowerBlock x y) (higherBlock x y)))
       else Inl SplitInvariantViolated)
      = Inr (sortBlocks (higherBlock x y # fragments (lowerBlock x y) (higherBlock x y)))"
    using True by (rule if_P)
  finally show ?thesis using assms(2) by simp
next
  case False
  note resolveOverlap_distinct[OF assms(1)]
  also have "(if \<forall>f \<in> set (fragments (lowerBlock x y) (higherBlock x y)). splitAssertions f
       then Inr (sortBlocks (higherBlock x y # fragments (lowerBlock x y) (higherBlock x y)))
       else Inl SplitInvariantViolated)
      = Inl SplitInvariantViolated"
    using False by (rule if_not_P)
  finally show ?thesis using assms(2) False by simp
qed

lemma good_lower_higher:
  "goodBlock x \<Longrightarrow> goodBlock y \<Longrightarrow> goodBlock (lowerBlock x y) \<and> goodBlock (higherBlock x y)"
  by (simp add: higherBlock_def lowerBlock_def)

lemma size_lower_higher:
  "blockSize (higherBlock x y) + blockSize (lowerBlock x y) = blockSize x + blockSize y"
  "range0 (lowerBlock x y) \<union> range0 (higherBlock x y) = range0 x \<union> range0 y"
  by (auto simp: higherBlock_def lowerBlock_def)


lemma resolveOverlap_step:
  assumes "blocksIntersect x y" and "resolveOverlap x y = Inr res"
  shows "totalSize res < blockSize x + blockSize y
       \<and> \<Union> (range0 ` set res) = range0 x \<union> range0 y
       \<and> sortedLeft res
       \<and> (\<forall>b \<in> set res. isValid (interval0 (ranges b)))
       \<and> (goodBlock x \<and> goodBlock y \<longrightarrow> (\<forall>b \<in> set res. goodBlock b))"
proof (cases "overlapLen x = overlapLen y")
  case True
  have vx: "lower0 x \<le> upper0 x" and vy: "lower0 y \<le> upper0 y"
    using blocksIntersect_valid[OF assms(1)] by (simp_all add: validRange_iff)
  from True assms(2) have r: "res = [x]" and c: "lower0 x = lower0 y" "upper0 x = upper0 y"
    by (auto simp: resolveOverlap_def split: if_splits)
  have "totalSize res < blockSize x + blockSize y"
    using vy by (simp add: r totalSize_def blockSize_eq)
  moreover have "\<Union> (range0 ` set res) = range0 x \<union> range0 y"
    using c by (simp add: r range0_def)
  moreover have "sortedLeft res" by (simp add: r sortedLeft_def)
  moreover have "\<forall>b \<in> set res. isValid (interval0 (ranges b))"
    using vx by (simp add: r validRange_iff)
  moreover have "goodBlock x \<and> goodBlock y \<longrightarrow> (\<forall>b \<in> set res. goodBlock b)"
    by (simp add: r)
  ultimately show ?thesis by blast
next
  case False
  let ?H = "higherBlock x y" and ?L = "lowerBlock x y"
  from False assms(2) have r: "res = sortBlocks (?H # fragments ?L ?H)"
    by (rule resolveOverlap_Inr_distinct)
  have i: "blocksIntersect ?L ?H"
    using assms(1) by (rule lower_intersects_higher)
  have vH: "isValid (interval0 (ranges ?H))"
    using blocksIntersect_valid[OF i] by simp
  have "totalSize res < blockSize x + blockSize y"
    using fragments_smaller[OF i] size_lower_higher(1)[of x y]
    by (simp add: r totalSize_sortBlocks totalSize_Cons)
  moreover have "\<Union> (range0 ` set res) = range0 x \<union> range0 y"
    using fragments_union[OF i] size_lower_higher(2)[of x y] by (simp add: r set_sortBlocks)
  moreover have "sortedLeft res" by (simp add: r sortedLeft_sortBlocks)
  moreover have "\<forall>b \<in> set res. isValid (interval0 (ranges b))"
    using fragments_valid[of ?L ?H] vH by (simp add: r set_sortBlocks)
  moreover have "goodBlock x \<and> goodBlock y \<longrightarrow> (\<forall>b \<in> set res. goodBlock b)"
  proof
    assume "goodBlock x \<and> goodBlock y"
    then have g: "goodBlock ?L" "goodBlock ?H"
      using good_lower_higher[of x y] by simp_all
    from fragments_good[OF i g(1)] have "\<forall>f \<in> set (fragments ?L ?H). goodBlock f"
      by blast
    with g(2) show "\<forall>b \<in> set res. goodBlock b"
      by (simp add: r set_sortBlocks)
  qed
  ultimately show ?thesis by blast
qed

lemma resolveOverlap_error:
  assumes "resolveOverlap x y = Inl e"
  shows "e = SameLengthDifferentCoords \<or> e = SplitInvariantViolated"
proof (cases "overlapLen x = overlapLen y")
  case True
  with assms show ?thesis
    by (auto simp: resolveOverlap_def split: if_splits)
next
  case False
  from resolveOverlap_Inl_distinct[OF False assms] show ?thesis by simp
qed

lemma resolveOverlap_error_good:
  assumes "resolveOverlap x y = Inl e" and "blocksIntersect x y"
    and "goodBlock x" and "goodBlock y"
  shows "e = SameLengthDifferentCoords"
proof (cases "overlapLen x = overlapLen y")
  case True
  with assms(1) show ?thesis
    by (auto simp: resolveOverlap_def split: if_splits)
next
  case False
  have "goodBlock (lowerBlock x y)"
    using good_lower_higher[OF assms(3,4)] by simp
  from fragments_good[OF lower_intersects_higher[OF assms(2)] this]
  have "\<forall>f \<in> set (fragments (lowerBlock x y) (higherBlock x y)). splitAssertions f"
    by blast
  with resolveOverlap_Inl_distinct[OF False assms(1)] show ?thesis by blast
qed

subsection \<open>The scan\<close>

lemma scanBlocks_Nil: "scanBlocks pre [] = Some (Inr pre)"
  by (subst scanBlocks.simps) simp

lemma scanBlocks_single: "scanBlocks pre [x] = Some (Inr (pre @ [x]))"
  by (subst scanBlocks.simps) simp

lemma scanBlocks_pair:
  "scanBlocks pre (x # y # rest) =
     (if blocksIntersect x y then
        (case resolveOverlap x y of
           Inl e \<Rightarrow> Some (Inl e)
         | Inr resolvedList \<Rightarrow> scanBlocks [] (mergeBlocks (pre @ rest) resolvedList))
      else scanBlocks (pre @ [x]) (y # rest))"
  by (subst scanBlocks.simps) (simp add: blocksIntersect_def)

lemma noAdjacentIntersect_snoc:
  "noAdjacentIntersect (xs @ [x]) \<Longrightarrow> \<not> blocksIntersect x y \<Longrightarrow>
   noAdjacentIntersect (xs @ [x, y])"
  by (induction xs rule: noAdjacentIntersect.induct) auto

lemma noAdjacentIntersect_take1: "noAdjacentIntersect (take 1 xs)"
  by (cases xs) simp_all

lemma noAdjacentIntersect_scan:
  "noAdjacentIntersect cur \<Longrightarrow> scanBlocks pre cur = Some (Inr (pre @ cur))"
proof (induction cur arbitrary: pre rule: noAdjacentIntersect.induct)
  case (1 x y rest)
  from "1.prems" have n: "\<not> blocksIntersect x y" and r: "noAdjacentIntersect (y # rest)"
    by simp_all
  from r have "scanBlocks (pre @ [x]) (y # rest) = Some (Inr ((pre @ [x]) @ y # rest))"
    by (rule "1.IH")
  with n show ?case by (simp add: scanBlocks_pair)
qed (simp_all add: scanBlocks_Nil scanBlocks_single)

lemma scanBlocks_terminates: "\<exists>r. scanBlocks pre cur = Some r"
proof (induction "(pre, cur)" arbitrary: pre cur
    rule: wf_induct_rule[OF wf_measures[of "[\<lambda>(pre, cur). totalSize (pre @ cur),
                                             \<lambda>(pre, cur). length cur]"]])
  case less: 1
  show ?case
  proof (cases cur)
    case Nil
    then show ?thesis by (simp add: scanBlocks_Nil)
  next
    case c1: (Cons x t)
    show ?thesis
    proof (cases t)
      case Nil
      with c1 show ?thesis by (simp add: scanBlocks_single)
    next
      case c2: (Cons y rest)
      have cur: "cur = x # y # rest" by (simp add: c1 c2)
      show ?thesis
      proof (cases "blocksIntersect x y")
        case False
        have "((pre @ [x], y # rest), (pre, cur))
            \<in> measures [\<lambda>(pre, cur). totalSize (pre @ cur), \<lambda>(pre, cur). length cur]"
          by (simp add: cur)
        from less.hyps[OF this] False show ?thesis
          by (simp add: cur scanBlocks_pair)
      next
        case True
        show ?thesis
        proof (cases "resolveOverlap x y")
          case (Inl e)
          with True show ?thesis by (simp add: cur scanBlocks_pair)
        next
          case (Inr res)
          have "totalSize res < blockSize x + blockSize y"
            using resolveOverlap_step[OF True Inr] by simp
          then have "(([], mergeBlocks (pre @ rest) res), (pre, cur))
              \<in> measures [\<lambda>(pre, cur). totalSize (pre @ cur), \<lambda>(pre, cur). length cur]"
            by (simp add: cur totalSize_mergeBlocks totalSize_append totalSize_Cons totalSize_Nil)
          from less.hyps[OF this] True Inr show ?thesis
            by (simp add: cur scanBlocks_pair)
        qed
      qed
    qed
  qed
qed

lemma resolvedFrom_weaken:
  assumes "resolvedFrom S r" and "\<Union> (range0 ` S) = \<Union> (range0 ` T)"
    and "(\<forall>b \<in> T. isValid (interval0 (ranges b))) \<longrightarrow> (\<forall>b \<in> S. isValid (interval0 (ranges b)))"
    and "(\<forall>b \<in> T. goodBlock b) \<longrightarrow> (\<forall>b \<in> S. goodBlock b)"
  shows "resolvedFrom T r"
proof (cases r)
  case (Inl e)
  with assms(1,4) show ?thesis by (auto simp: resolvedFrom_def)
next
  case (Inr out)
  with assms(1) have o: "sortedLeft out" "noAdjacentIntersect out"
    "\<Union> (range0 ` set out) = \<Union> (range0 ` S)"
    "(\<forall>b \<in> S. isValid (interval0 (ranges b))) \<longrightarrow>
       (\<forall>b \<in> set out. isValid (interval0 (ranges b)))"
    "(\<forall>b \<in> S. goodBlock b) \<longrightarrow> (\<forall>b \<in> set out. goodBlock b)"
    by (simp_all add: resolvedFrom_def)
  from o(3) assms(2) have "\<Union> (range0 ` set out) = \<Union> (range0 ` T)" by (rule trans)
  moreover from o(4) assms(3) have "(\<forall>b \<in> T. isValid (interval0 (ranges b))) \<longrightarrow>
       (\<forall>b \<in> set out. isValid (interval0 (ranges b)))" by blast
  moreover from o(5) assms(4) have "(\<forall>b \<in> T. goodBlock b) \<longrightarrow>
       (\<forall>b \<in> set out. goodBlock b)" by blast
  ultimately show ?thesis using o(1,2) Inr by (simp add: resolvedFrom_def)
qed

lemma scanBlocks_correct:
  assumes "sortedLeft (pre @ cur)" and "noAdjacentIntersect (pre @ take 1 cur)"
  shows "\<exists>r. scanBlocks pre cur = Some r \<and> resolvedFrom (set (pre @ cur)) r"
  using assms
proof (induction "(pre, cur)" arbitrary: pre cur
    rule: wf_induct_rule[OF wf_measures[of "[\<lambda>(pre, cur). totalSize (pre @ cur),
                                             \<lambda>(pre, cur). length cur]"]])
  case less: 1
  show ?case
  proof (cases cur)
    case Nil
    with less.prems show ?thesis by (simp add: scanBlocks_Nil resolvedFrom_def)
  next
    case c1: (Cons x t)
    show ?thesis
    proof (cases t)
      case Nil
      with c1 less.prems show ?thesis by (simp add: scanBlocks_single resolvedFrom_def)
    next
      case c2: (Cons y rest)
      have cur: "cur = x # y # rest" by (simp add: c1 c2)
      show ?thesis
      proof (cases "blocksIntersect x y")
        case False
        have m: "((pre @ [x], y # rest), (pre, cur))
            \<in> measures [\<lambda>(pre, cur). totalSize (pre @ cur), \<lambda>(pre, cur). length cur]"
          by (simp add: cur)
        have s: "sortedLeft ((pre @ [x]) @ y # rest)"
          using less.prems(1) by (simp add: cur)
        have n: "noAdjacentIntersect ((pre @ [x]) @ take 1 (y # rest))"
          using less.prems(2) False by (simp add: cur noAdjacentIntersect_snoc)
        have e: "set ((pre @ [x]) @ y # rest) = set (pre @ cur)"
          by (simp add: cur)
        from less.hyps[OF m s n] obtain r where r: "scanBlocks (pre @ [x]) (y # rest) = Some r"
          and p: "resolvedFrom (set ((pre @ [x]) @ y # rest)) r"
          by blast
        have "scanBlocks pre cur = Some r"
          using False r by (simp add: cur scanBlocks_pair)
        moreover from p have "resolvedFrom (set (pre @ cur)) r"
          by (simp only: e)
        ultimately show ?thesis by blast
      next
        case True
        show ?thesis
        proof (cases "resolveOverlap x y")
          case (Inl e)
          have "e = SameLengthDifferentCoords \<or> e = SplitInvariantViolated"
            using Inl by (rule resolveOverlap_error)
          moreover have "(\<forall>b \<in> set (pre @ cur). goodBlock b) \<longrightarrow> e = SameLengthDifferentCoords"
          proof
            assume "\<forall>b \<in> set (pre @ cur). goodBlock b"
            then have "goodBlock x" "goodBlock y" by (simp_all add: cur)
            with Inl True show "e = SameLengthDifferentCoords"
              by (rule resolveOverlap_error_good)
          qed
          ultimately have "resolvedFrom (set (pre @ cur)) (Inl e)"
            by (simp add: resolvedFrom_def)
          moreover have "scanBlocks pre cur = Some (Inl e)"
            using True Inl by (simp add: cur scanBlocks_pair)
          ultimately show ?thesis by blast
        next
          case (Inr res)
          note step = resolveOverlap_step[OF True Inr]
          note st = step[THEN conjunct1] step[THEN conjunct2, THEN conjunct1]
            step[THEN conjunct2, THEN conjunct2, THEN conjunct1]
            step[THEN conjunct2, THEN conjunct2, THEN conjunct2, THEN conjunct1]
            step[THEN conjunct2, THEN conjunct2, THEN conjunct2, THEN conjunct2]
          let ?m = "mergeBlocks (pre @ rest) res"
          have m: "(([], ?m), (pre, cur))
              \<in> measures [\<lambda>(pre, cur). totalSize (pre @ cur), \<lambda>(pre, cur). length cur]"
            using st(1)
            by (simp add: cur totalSize_mergeBlocks totalSize_append totalSize_Cons totalSize_Nil)
          have s: "sortedLeft ([] @ ?m)"
            using less.prems(1) st(3)
            by (simp add: cur sortedLeft_mergeBlocks sortedLeft_remove_pair)
          have n: "noAdjacentIntersect ([] @ take 1 ?m)"
            using noAdjacentIntersect_take1[of ?m] by simp
          have sm: "set ([] @ ?m) = set pre \<union> set rest \<union> set res"
            by (simp add: set_mergeBlocks)
          have sc: "set (pre @ cur) = set pre \<union> set rest \<union> {x, y}"
            by (auto simp: cur)
          have "\<Union> (range0 ` (set pre \<union> set rest \<union> set res))
              = \<Union> (range0 ` (set pre \<union> set rest)) \<union> \<Union> (range0 ` set res)"
            by (simp only: image_Un Union_Un_distrib)
          also have "\<dots> = \<Union> (range0 ` (set pre \<union> set rest)) \<union> (range0 x \<union> range0 y)"
            by (simp only: st(2))
          also have "\<dots> = \<Union> (range0 ` (set pre \<union> set rest \<union> {x, y}))"
            by (simp add: image_Un Un_ac)
          finally have u: "\<Union> (range0 ` set ([] @ ?m)) = \<Union> (range0 ` set (pre @ cur))"
            by (simp only: sm sc)
          have v: "(\<forall>b \<in> set (pre @ cur). isValid (interval0 (ranges b))) \<longrightarrow>
              (\<forall>b \<in> set ([] @ ?m). isValid (interval0 (ranges b)))"
            unfolding sm sc using st(4) by blast
          have g: "(\<forall>b \<in> set (pre @ cur). goodBlock b) \<longrightarrow>
              (\<forall>b \<in> set ([] @ ?m). goodBlock b)"
            unfolding sm sc using st(5) by blast
          from less.hyps[OF m s n] obtain r where r: "scanBlocks [] ?m = Some r"
            and p: "resolvedFrom (set ([] @ ?m)) r"
            by blast
          have "scanBlocks pre cur = Some r"
            using True Inr r by (simp add: cur scanBlocks_pair)
          moreover from p u v g have "resolvedFrom (set (pre @ cur)) r"
            by (rule resolvedFrom_weaken)
          ultimately show ?thesis by blast
        qed
      qed
    qed
  qed
qed

lemma removeSubMaximalBlocks_correct:
  "\<exists>r. removeSubMaximalBlocks xs = Some r \<and> resolvedFrom (set xs) r"
proof -
  have "sortedLeft ([] @ sortBlocks xs)" "noAdjacentIntersect ([] @ take 1 (sortBlocks xs))"
    using noAdjacentIntersect_take1[of "sortBlocks xs"] by (simp_all add: sortedLeft_sortBlocks)
  from scanBlocks_correct[OF this] obtain r where r: "scanBlocks [] (sortBlocks xs) = Some r"
    and p: "resolvedFrom (set ([] @ sortBlocks xs)) r"
    by blast
  from p have "resolvedFrom (set xs) r"
    by (simp add: set_sortBlocks)
  with r show ?thesis by (simp add: removeSubMaximalBlocks_def)
qed

lemma sorted_separated:
  assumes "sortedLeft out" and "noAdjacentIntersect out"
    and "\<forall>b \<in> set out. isValid (interval0 (ranges b))"
  shows "sorted_wrt (\<lambda>a b. upper0 a < lower0 b) out"
  using assms
proof (induction out rule: noAdjacentIntersect.induct)
  case (1 x y rest)
  then have ih: "sorted_wrt (\<lambda>a b. upper0 a < lower0 b) (y # rest)"
    by (simp add: sortedLeft_def)
  from "1.prems" have xy: "upper0 x < lower0 y"
    by (auto simp: sortedLeft_def sortIntervalLeft_def blocksIntersect_def isIntersecting_def
        validRange_iff)
  from "1.prems"(1) have "\<forall>z \<in> set rest. lower0 y \<le> lower0 z"
    by (auto simp: sortedLeft_def sortIntervalLeft_def)
  with xy have "\<forall>z \<in> set (y # rest). upper0 x < lower0 z"
    by auto
  with ih show ?case by simp
qed simp_all


lemma example_run:
  "removeSubMaximalBlocks [exampleBlock 3 6 50 53 8, exampleBlock 0 10 30 40 5] =
     Some (Inr [exampleBlock 0 2 30 32 5, exampleBlock 3 6 50 53 8, exampleBlock 7 10 37 40 5])"
proof -
  let ?A = "exampleBlock 0 10 30 40 5" and ?B = "exampleBlock 3 6 50 53 8"
  let ?l = "exampleBlock 0 2 30 32 5" and ?r = "exampleBlock 7 10 37 40 5"
  have c: "lower0 ?A = 0" "upper0 ?A = 10" "lower0 ?B = 3" "upper0 ?B = 6"
    "lower0 ?l = 0" "upper0 ?l = 2" "lower0 ?r = 7" "upper0 ?r = 10"
    by (simp_all add: exampleBlock_def lower0_def upper0_def)
  have w: "wrap64 2 = 2" "wrap64 32 = 32" "wrap64 3 = 3" "wrap64 37 = 37" "wrap64 4 = 4"
    by (simp_all add: wrap64_def)
  have s: "sortBlocks [?B, ?A] = [?A, ?B]"
    by (simp add: sortBlocks_def sortIntervalLeft_def c)
  have f: "fragments ?A ?B = [?l, ?r]"
    by (simp add: fragments_def leftFragment_def rightFragment_def coord_defs exampleBlock_def w)
  have hl: "higherBlock ?A ?B = ?B" "lowerBlock ?A ?B = ?A" and d: "overlapLen ?A \<noteq> overlapLen ?B"
    by (simp_all add: higherBlock_def lowerBlock_def exampleBlock_def)
  have "\<forall>f \<in> set (fragments ?A ?B). splitAssertions f"
    unfolding f
    by (simp add: splitAssertions_def exampleBlock_def interval_size_def isValid_def w)
  then have a: "\<forall>f \<in> set (fragments (lowerBlock ?A ?B) (higherBlock ?A ?B)). splitAssertions f"
    by (simp only: hl)
  have "resolveOverlap ?A ?B = Inr (sortBlocks (?B # fragments ?A ?B))"
    using resolveOverlap_distinct_Inr[OF d a] by (simp only: hl)
  also have "sortBlocks (?B # fragments ?A ?B) = [?l, ?B, ?r]"
    by (simp add: f sortBlocks_def sortIntervalLeft_def c)
  finally have r: "resolveOverlap ?A ?B = Inr [?l, ?B, ?r]" .
  have n: "noAdjacentIntersect [?l, ?B, ?r]"
    by (simp add: blocksIntersect_def isIntersecting_def c)
  have "scanBlocks [] [?A, ?B] = scanBlocks [] [?l, ?B, ?r]"
    by (simp add: scanBlocks_pair[of "[]" ?A ?B] blocksIntersect_def isIntersecting_def c r)
  also have "\<dots> = Some (Inr [?l, ?B, ?r])"
    using noAdjacentIntersect_scan[OF n, of "[]"] by simp
  finally show ?thesis by (simp add: removeSubMaximalBlocks_def s)
qed

text \<open>
  C9. For every input list \<open>removeSubMaximalBlocks\<close> terminates, and so does its loop from
  every state: each resolution strictly lowers the number of read indices the blocks claim
  in total, each other step shortens what is left to scan. It ends either with an abort
  of \<open>resolveOverlap\<close>, which for blocks that satisfy the data model's invariant with
  \<^verbatim>\<open>int64_t\<close> coordinates is the one on two intersecting blocks of the same length and
  different coordinates, or by leaving the loop with a list in which no two neighbours have
  intersecting index-0 ranges; from a state where no two neighbours intersect the loop is
  left with the list as it is, and at a pair that intersects it is not left: the pair is
  resolved and the scan restarts.
\<close>

theorem removeSubMaximalBlocks_terminates:
  "(\<exists>r. removeSubMaximalBlocks xs = Some r)
   \<and> (\<exists>r. scanBlocks pre cur = Some r)
   \<and> (\<forall>out. removeSubMaximalBlocks xs = Some (Inr out) \<longrightarrow> noAdjacentIntersect out)
   \<and> (\<forall>e. removeSubMaximalBlocks xs = Some (Inl e) \<longrightarrow>
          (e = SameLengthDifferentCoords \<or> e = SplitInvariantViolated)
          \<and> ((\<forall>b \<in> set xs. goodBlock b) \<longrightarrow> e = SameLengthDifferentCoords))
   \<and> (noAdjacentIntersect cur \<longrightarrow> scanBlocks pre cur = Some (Inr (pre @ cur)))
   \<and> (noAdjacentIntersect (sortBlocks xs) \<longrightarrow>
        removeSubMaximalBlocks xs = Some (Inr (sortBlocks xs)))
   \<and> (blocksIntersect x y \<longrightarrow>
        scanBlocks pre (x # y # rest) =
          (case resolveOverlap x y of
             Inl e \<Rightarrow> Some (Inl e)
           | Inr resolvedList \<Rightarrow> scanBlocks [] (mergeBlocks (pre @ rest) resolvedList)))"
proof -
  obtain r where r: "removeSubMaximalBlocks xs = Some r" and p: "resolvedFrom (set xs) r"
    using removeSubMaximalBlocks_correct[of xs] by blast
  have 1: "\<exists>r. removeSubMaximalBlocks xs = Some r"
    using r by blast
  have 2: "\<exists>r. scanBlocks pre cur = Some r"
    by (rule scanBlocks_terminates)
  have 3: "\<forall>out. removeSubMaximalBlocks xs = Some (Inr out) \<longrightarrow> noAdjacentIntersect out"
    using r p by (auto simp: resolvedFrom_def)
  have 4: "\<forall>e. removeSubMaximalBlocks xs = Some (Inl e) \<longrightarrow>
          (e = SameLengthDifferentCoords \<or> e = SplitInvariantViolated)
          \<and> ((\<forall>b \<in> set xs. goodBlock b) \<longrightarrow> e = SameLengthDifferentCoords)"
    using r p by (auto simp: resolvedFrom_def)
  have 5: "noAdjacentIntersect cur \<longrightarrow> scanBlocks pre cur = Some (Inr (pre @ cur))"
    by (simp add: noAdjacentIntersect_scan)
  have 6: "noAdjacentIntersect (sortBlocks xs) \<longrightarrow>
        removeSubMaximalBlocks xs = Some (Inr (sortBlocks xs))"
    using noAdjacentIntersect_scan[of "sortBlocks xs" "[]"]
    by (simp add: removeSubMaximalBlocks_def)
  have 7: "blocksIntersect x y \<longrightarrow>
        scanBlocks pre (x # y # rest) =
          (case resolveOverlap x y of
             Inl e \<Rightarrow> Some (Inl e)
           | Inr resolvedList \<Rightarrow> scanBlocks [] (mergeBlocks (pre @ rest) resolvedList))"
    by (simp add: scanBlocks_pair)
  from 1 2 3 4 5 6 7 show ?thesis by blast
qed

theorem removeSubMaximalBlocks_terminates_witness:
  "removeSubMaximalBlocks [exampleBlock 3 6 50 53 8, exampleBlock 0 10 30 40 5] =
     Some (Inr [exampleBlock 0 2 30 32 5, exampleBlock 3 6 50 53 8, exampleBlock 7 10 37 40 5])
   \<and> noAdjacentIntersect
       [exampleBlock 0 2 30 32 5, exampleBlock 3 6 50 53 8, exampleBlock 7 10 37 40 5]"
  using removeSubMaximalBlocks_terminates[of
      "[exampleBlock 3 6 50 53 8, exampleBlock 0 10 30 40 5]" "[]" "[]"] example_run
  by blast

text \<open>
  C2. When \<open>removeSubMaximalBlocks\<close> returns a list for an input whose blocks all have a
  valid index-0 range, the index-0 ranges of the result are pairwise disjoint (no read
  index is counted twice), and their union is the union of the index-0 ranges of the
  input (no read index is dropped): where a shorter overlap was covered by a longer one,
  its indices stay in the result, as part of the longer block.
\<close>

theorem removeSubMaximalBlocks_disjoint_cover:
  assumes "\<forall>b \<in> set xs. isValid (interval0 (ranges b))"
    and "removeSubMaximalBlocks xs = Some (Inr out)"
  shows "(\<forall>i j. i < j \<and> j < length out \<longrightarrow>
            range0 (out ! i) \<inter> range0 (out ! j) = {}
            \<and> \<not> blocksIntersect (out ! i) (out ! j))
         \<and> \<Union> (range0 ` set out) = \<Union> (range0 ` set xs)"
proof -
  from removeSubMaximalBlocks_correct[of xs] assms(2)
  have p: "resolvedFrom (set xs) (Inr out)" by auto
  with assms(1) have o: "sortedLeft out" "noAdjacentIntersect out"
    "\<forall>b \<in> set out. isValid (interval0 (ranges b))"
    and u: "\<Union> (range0 ` set out) = \<Union> (range0 ` set xs)"
    by (simp_all add: resolvedFrom_def)
  from o have s: "sorted_wrt (\<lambda>a b. upper0 a < lower0 b) out"
    by (rule sorted_separated)
  have "\<forall>i j. i < j \<and> j < length out \<longrightarrow>
            range0 (out ! i) \<inter> range0 (out ! j) = {}
            \<and> \<not> blocksIntersect (out ! i) (out ! j)"
  proof (intro allI impI)
    fix i j assume ij: "i < j \<and> j < length out"
    with s have "upper0 (out ! i) < lower0 (out ! j)"
      by (simp add: sorted_wrt_iff_nth_less)
    then have "range0 (out ! i) \<inter> range0 (out ! j) = {}"
      by (auto simp: range0_def)
    then show "range0 (out ! i) \<inter> range0 (out ! j) = {}
        \<and> \<not> blocksIntersect (out ! i) (out ! j)"
      by (simp add: blocksIntersect_iff)
  qed
  with u show ?thesis by simp
qed

theorem removeSubMaximalBlocks_disjoint_cover_witness:
  "removeSubMaximalBlocks [exampleBlock 3 6 50 53 8, exampleBlock 0 10 30 40 5] =
     Some (Inr [exampleBlock 0 2 30 32 5, exampleBlock 3 6 50 53 8, exampleBlock 7 10 37 40 5])
   \<and> range0 (exampleBlock 0 2 30 32 5) \<inter> range0 (exampleBlock 7 10 37 40 5) = {}
   \<and> range0 (exampleBlock 0 2 30 32 5) \<union> range0 (exampleBlock 3 6 50 53 8)
       \<union> range0 (exampleBlock 7 10 37 40 5)
     = range0 (exampleBlock 3 6 50 53 8) \<union> range0 (exampleBlock 0 10 30 40 5)"
proof -
  have v: "\<forall>b \<in> set [exampleBlock 3 6 50 53 8, exampleBlock 0 10 30 40 5].
      isValid (interval0 (ranges b))"
    by (simp add: exampleBlock_def isValid_def)
  from removeSubMaximalBlocks_disjoint_cover[OF v example_run]
  have d: "\<forall>i j. i < j \<and> j < 3 \<longrightarrow>
      range0 ([exampleBlock 0 2 30 32 5, exampleBlock 3 6 50 53 8, exampleBlock 7 10 37 40 5] ! i)
      \<inter> range0 ([exampleBlock 0 2 30 32 5, exampleBlock 3 6 50 53 8, exampleBlock 7 10 37 40 5] ! j)
      = {}"
    and u: "\<Union> (range0 ` set [exampleBlock 0 2 30 32 5, exampleBlock 3 6 50 53 8,
                               exampleBlock 7 10 37 40 5])
      = \<Union> (range0 ` set [exampleBlock 3 6 50 53 8, exampleBlock 0 10 30 40 5])"
    by simp_all
  from d[rule_format, of 0 2] have "range0 (exampleBlock 0 2 30 32 5)
      \<inter> range0 (exampleBlock 7 10 37 40 5) = {}"
    by simp
  moreover from u have "range0 (exampleBlock 0 2 30 32 5) \<union> range0 (exampleBlock 3 6 50 53 8)
       \<union> range0 (exampleBlock 7 10 37 40 5)
     = range0 (exampleBlock 3 6 50 53 8) \<union> range0 (exampleBlock 0 10 30 40 5)"
    by (simp add: Un_assoc)
  ultimately show ?thesis using example_run by simp
qed

section \<open>The modelled intersection test\<close>

text \<open>
  On valid ranges the intersection test is the comparison of the end points, and in
  general it says that the two ranges share an index.
\<close>

lemma isIntersecting_valid:
  "s1 \<le> e1 \<Longrightarrow> s2 \<le> e2 \<Longrightarrow> isIntersecting s1 e1 s2 e2 \<longleftrightarrow> s1 \<le> e2 \<and> s2 \<le> e1"
  by (auto simp: isIntersecting_def)

lemma isIntersecting_iff: "isIntersecting s1 e1 s2 e2 \<longleftrightarrow> {s1 .. e1} \<inter> {s2 .. e2} \<noteq> {}"
proof
  assume "isIntersecting s1 e1 s2 e2"
  then have "max s1 s2 \<in> {s1 .. e1} \<inter> {s2 .. e2}"
    by (auto simp: isIntersecting_def)
  then show "{s1 .. e1} \<inter> {s2 .. e2} \<noteq> {}" by blast
next
  assume "{s1 .. e1} \<inter> {s2 .. e2} \<noteq> {}"
  then show "isIntersecting s1 e1 s2 e2"
    by (auto simp: isIntersecting_def)
qed

end
